theory Spec2Isabelle
  imports Main
begin

section \<open>Strings and character classes\<close>

text \<open>
  A JavaScript string is modelled as the list of its code points (what a regular
  expression with the \<^verbatim>\<open>u\<close> flag iterates over).  Every character that the
  regular expressions without the \<^verbatim>\<open>u\<close> flag, \<^verbatim>\<open>trim\<close> and the literals of the
  source look for lies in the Basic Multilingual Plane, so those operations act on code
  points exactly as they act on UTF-16 code units.
\<close>

type_synonym jsstring = "nat list"

definition cps :: "string \<Rightarrow> jsstring" where
  "cps s = map of_char s"

text \<open>\<^verbatim>\<open>\s\<close> of a regular expression, which is also the set that \<^verbatim>\<open>trim\<close> strips:
  WhiteSpace and LineTerminator of ECMAScript.\<close>

definition isWhitespace :: "nat \<Rightarrow> bool" where
  "isWhitespace c \<longleftrightarrow>
     (9 \<le> c \<and> c \<le> 13) \<or> c = 32 \<or> c = 160 \<or> c = 5760 \<or> (8192 \<le> c \<and> c \<le> 8202) \<or>
     c = 8232 \<or> c = 8233 \<or> c = 8239 \<or> c = 8287 \<or> c = 12288 \<or> c = 65279"

text \<open>The characters that \<^verbatim>\<open>.\<close> does not match.\<close>

definition isLineTerminator :: "nat \<Rightarrow> bool" where
  "isLineTerminator c \<longleftrightarrow> c = 10 \<or> c = 13 \<or> c = 8232 \<or> c = 8233"

definition isDigit :: "nat \<Rightarrow> bool" where
  "isDigit c \<longleftrightarrow> 48 \<le> c \<and> c \<le> 57"

definition isAsciiUpper :: "nat \<Rightarrow> bool" where
  "isAsciiUpper c \<longleftrightarrow> 65 \<le> c \<and> c \<le> 90"

definition isAsciiLower :: "nat \<Rightarrow> bool" where
  "isAsciiLower c \<longleftrightarrow> 97 \<le> c \<and> c \<le> 122"

text \<open>\<^verbatim>\<open>\w\<close>: ASCII letters, digits and the underscore.\<close>

definition isWordChar :: "nat \<Rightarrow> bool" where
  "isWordChar c \<longleftrightarrow> isAsciiUpper c \<or> isAsciiLower c \<or> isDigit c \<or> c = 95"

text \<open>\<^verbatim>\<open>String.prototype.trim\<close>.\<close>

definition trim :: "jsstring \<Rightarrow> jsstring" where
  "trim s = rev (dropWhile isWhitespace (rev (dropWhile isWhitespace s)))"

text \<open>\<^verbatim>\<open>.replace(/\s+/g, '')\<close>.\<close>

definition removeWhitespace :: "jsstring \<Rightarrow> jsstring" where
  "removeWhitespace s = filter (\<lambda>c. \<not> isWhitespace c) s"

text \<open>\<^verbatim>\<open>.replace(/[...]+/g, ' ')\<close>: every maximal run of characters of the class
  becomes one space.\<close>

function collapseRuns :: "(nat \<Rightarrow> bool) \<Rightarrow> jsstring \<Rightarrow> jsstring" where
  "collapseRuns P [] = []"
| "collapseRuns P (c # cs) =
     (if P c then 32 # collapseRuns P (dropWhile P cs) else c # collapseRuns P cs)"
  by pat_completeness auto
termination
  by (relation "measure (\<lambda>(P, s). length s)") (auto simp: length_dropWhile_le less_Suc_eq_le)

text \<open>\<^verbatim>\<open>.replace(/\s+/g, ' ')\<close>\<close>

definition collapseWhitespace :: "jsstring \<Rightarrow> jsstring" where
  "collapseWhitespace s = collapseRuns isWhitespace s"

text \<open>\<^verbatim>\<open>String.prototype.startsWith\<close> and \<^verbatim>\<open>String.prototype.includes\<close>.\<close>

definition startsWith :: "jsstring \<Rightarrow> jsstring \<Rightarrow> bool" where
  "startsWith s p \<longleftrightarrow> take (length p) s = p"

fun includesStr :: "jsstring \<Rightarrow> jsstring \<Rightarrow> bool" where
  "includesStr [] sub \<longleftrightarrow> sub = []"
| "includesStr (c # cs) sub \<longleftrightarrow> startsWith (c # cs) sub \<or> includesStr cs sub"

text \<open>\<^verbatim>\<open>Array.prototype.join\<close>.\<close>

fun joinWith :: "jsstring \<Rightarrow> jsstring list \<Rightarrow> jsstring" where
  "joinWith sep [] = []"
| "joinWith sep [x] = x"
| "joinWith sep (x # y # ys) = x @ sep @ joinWith sep (y # ys)"

section \<open>Case conversion and Unicode tables\<close>

text \<open>
  The case mappings, the canonical decomposition and the property \<^verbatim>\<open>\p{M}\<close> belong to
  the JavaScript engine.  On ASCII they are written out; outside ASCII they are taken as
  a parameter, so that every theorem holds for whatever tables the engine has.
  \<open>upperCp\<close> is the full upper-case mapping of one code point (upper-casing has no
  context-sensitive rule), \<open>lowerStr\<close> and \<open>nfdStr\<close> are \<^verbatim>\<open>toLowerCase\<close> and
  \<^verbatim>\<open>normalize('NFD')\<close> on a string that has a non-ASCII character, \<open>markCp\<close> is
  \<^verbatim>\<open>\p{M}\<close> on a non-ASCII code point.
\<close>

record unicode =
  upperCp :: "nat \<Rightarrow> jsstring"
  lowerStr :: "jsstring \<Rightarrow> jsstring"
  nfdStr :: "jsstring \<Rightarrow> jsstring"
  markCp :: "nat \<Rightarrow> bool"

definition asciiUpper :: "nat \<Rightarrow> nat" where
  "asciiUpper c = (if isAsciiLower c then c - 32 else c)"

definition asciiLower :: "nat \<Rightarrow> nat" where
  "asciiLower c = (if isAsciiUpper c then c + 32 else c)"

definition isAscii :: "jsstring \<Rightarrow> bool" where
  "isAscii s = list_all (\<lambda>c. c < 128) s"

definition toUpperCase :: "unicode \<Rightarrow> jsstring \<Rightarrow> jsstring" where
  "toUpperCase U s = concat (map (\<lambda>c. if c < 128 then [asciiUpper c] else upperCp U c) s)"

definition toLowerCase :: "unicode \<Rightarrow> jsstring \<Rightarrow> jsstring" where
  "toLowerCase U s = (if isAscii s then map asciiLower s else lowerStr U s)"

definition normalizeNFD :: "unicode \<Rightarrow> jsstring \<Rightarrow> jsstring" where
  "normalizeNFD U s = (if isAscii s then s else nfdStr U s)"

definition isMark :: "unicode \<Rightarrow> nat \<Rightarrow> bool" where
  "isMark U c \<longleftrightarrow> 128 \<le> c \<and> markCp U c"

text \<open>A table that leaves every non-ASCII character as it is; on ASCII-only strings it
  gives what the engine gives.\<close>

definition plainUnicode :: unicode where
  "plainUnicode = \<lparr>upperCp = (\<lambda>c. [c]), lowerStr = map asciiLower, nfdStr = (\<lambda>s. s),
     markCp = (\<lambda>c. False)\<rparr>"

section \<open>Regular expressions with backtracking\<close>

text \<open>
  The citation patterns use lazy and greedy quantifiers whose captures depend on the
  order in which a backtracking matcher tries the alternatives.  The matcher returns the
  list of all end states in that order: the head of the list is the match that the
  engine reports.  A state is the character before the current position (none at index
  0), the rest of the input, and the captures.
\<close>

datatype regex =
    Cls "nat \<Rightarrow> bool"
  | Seq regex regex
  | Alt regex regex
  | Opt regex
  | Star regex
  | LazyStar regex
  | Group nat regex
  | Bol
  | Eol
  | WordB

type_synonym captures = "nat \<Rightarrow> jsstring option"

type_synonym mstate = "nat option \<times> jsstring \<times> captures"

definition remaining :: "mstate \<Rightarrow> jsstring" where
  "remaining st = fst (snd st)"

definition capturesOf :: "mstate \<Rightarrow> captures" where
  "capturesOf st = snd (snd st)"

text \<open>A quantifier gives up an iteration that consumed nothing.\<close>

definition progress :: "mstate \<Rightarrow> mstate \<Rightarrow> bool" where
  "progress st st' \<longleftrightarrow> length (remaining st') < length (remaining st)"

definition setCapture :: "nat \<Rightarrow> mstate \<Rightarrow> mstate \<Rightarrow> mstate" where
  "setCapture n st st' =
     (fst st', remaining st',
      (capturesOf st')(n := Some (take (length (remaining st) - length (remaining st'))
                                       (remaining st))))"

definition atWordBoundary :: "nat option \<Rightarrow> jsstring \<Rightarrow> bool" where
  "atWordBoundary prev rest \<longleftrightarrow>
     (case prev of None \<Rightarrow> False | Some p \<Rightarrow> isWordChar p) \<noteq>
     (case rest of [] \<Rightarrow> False | c # cs \<Rightarrow> isWordChar c)"

function rmatch :: "regex \<Rightarrow> mstate \<Rightarrow> mstate list" where
  "rmatch (Cls P) st =
     (case remaining st of
        [] \<Rightarrow> []
      | c # cs \<Rightarrow> if P c then [(Some c, cs, capturesOf st)] else [])"
| "rmatch (Seq a b) st = concat (map (rmatch b) (rmatch a st))"
| "rmatch (Alt a b) st = rmatch a st @ rmatch b st"
| "rmatch (Opt a) st = filter (progress st) (rmatch a st) @ [st]"
| "rmatch (Star a) st =
     concat (map (\<lambda>st'. if progress st st' then rmatch (Star a) st' else []) (rmatch a st))
     @ [st]"
| "rmatch (LazyStar a) st =
     st # concat (map (\<lambda>st'. if progress st st' then rmatch (LazyStar a) st' else [])
                      (rmatch a st))"
| "rmatch (Group n a) st = map (setCapture n st) (rmatch a st)"
| "rmatch Bol st = (if fst st = None then [st] else [])"
| "rmatch Eol st = (if remaining st = [] then [st] else [])"
| "rmatch WordB st = (if atWordBoundary (fst st) (remaining st) then [st] else [])"
  by pat_completeness auto
termination
  by (relation "measures [\<lambda>(r, st). size r, \<lambda>(r, st). length (remaining st)]")
     (auto simp: progress_def)

text \<open>\<^verbatim>\<open>RegExp.prototype.exec\<close> without the global flag: the first start index, from
  the left, at which the pattern matches, and the captures of the first match there.\<close>

fun regexExecFrom :: "regex \<Rightarrow> nat option \<Rightarrow> jsstring \<Rightarrow> captures option" where
  "regexExecFrom r prev s =
     (case rmatch r (prev, s, \<lambda>n. None) of
        st # sts \<Rightarrow> Some (capturesOf st)
      | [] \<Rightarrow> (case s of [] \<Rightarrow> None | c # cs \<Rightarrow> regexExecFrom r (Some c) cs))"

declare regexExecFrom.simps [simp del]

definition regexExec :: "regex \<Rightarrow> jsstring \<Rightarrow> captures option" where
  "regexExec r s = regexExecFrom r None s"

definition Plus :: "regex \<Rightarrow> regex" where
  "Plus r = Seq r (Star r)"

definition LazyPlus :: "regex \<Rightarrow> regex" where
  "LazyPlus r = Seq r (LazyStar r)"

definition Chr :: "char \<Rightarrow> regex" where
  "Chr ch = Cls (\<lambda>c. c = of_char ch)"

text \<open>An ASCII letter of a pattern under the flag \<^verbatim>\<open>i\<close>, with or without
  \<^verbatim>\<open>u\<close>.  It is used for the letters of \<^verbatim>\<open>article\<close>, \<^verbatim>\<open>de\<close>, \<^verbatim>\<open>du\<close> and
  the class letters L, R, D, A only, which no non-ASCII character folds to.\<close>

definition ChrCI :: "char \<Rightarrow> regex" where
  "ChrCI ch = Cls (\<lambda>c. asciiLower c = asciiLower (of_char ch))"

fun seqs :: "regex list \<Rightarrow> regex" where
  "seqs [r] = r"
| "seqs (r # rs) = Seq r (seqs rs)"
| "seqs [] = Opt (Cls (\<lambda>c. False))"

text \<open>\<^verbatim>\<open>[A-Za-z]\<close> under the flags \<^verbatim>\<open>iu\<close>: simple case folding also sends U+017F
  (long s) to \<^verbatim>\<open>s\<close> and U+212A (Kelvin sign) to \<^verbatim>\<open>k\<close>.\<close>

definition isLetterIU :: "nat \<Rightarrow> bool" where
  "isLetterIU c \<longleftrightarrow> isAsciiUpper c \<or> isAsciiLower c \<or> c = 383 \<or> c = 8490"

definition Space :: regex where
  "Space = Cls isWhitespace"

definition Digit :: regex where
  "Digit = Cls isDigit"

definition Dot :: regex where
  "Dot = Cls (\<lambda>c. \<not> isLineTerminator c)"

text \<open>A capture group of a pattern that matched; the groups of the patterns below take
  part in every match.\<close>

definition group :: "captures \<Rightarrow> nat \<Rightarrow> jsstring" where
  "group caps n = (case caps n of Some w \<Rightarrow> w | None \<Rightarrow> [])"

section \<open>Article number normalizer (scripts/lib/parser.ts)\<close>

text \<open>\<^verbatim>\<open>/^(L|R|D|A)\.\s*/i\<close> for \<open>sep = 46\<close> (the period) and
  \<^verbatim>\<open>/^(L|R|D|A)\*\s*/i\<close> for \<open>sep = 42\<close> (the asterisk).\<close>

definition CLASS_SEPARATOR :: "nat \<Rightarrow> regex" where
  "CLASS_SEPARATOR sep =
     seqs [Bol,
           Group 1 (Alt (ChrCI CHR ''L'') (Alt (ChrCI CHR ''R'')
                     (Alt (ChrCI CHR ''D'') (ChrCI CHR ''A'')))),
           Cls (\<lambda>c. c = sep), Star Space]"

text \<open>\<^verbatim>\<open>.replace(r, '$1')\<close> for a pattern without the global flag that starts with
  \<^verbatim>\<open>^\<close>: it can match at index 0 only, and what it matches there is replaced by its
  first group.\<close>

definition replaceWithGroup1 :: "regex \<Rightarrow> jsstring \<Rightarrow> jsstring" where
  "replaceWithGroup1 r s =
     (case rmatch r (None, s, \<lambda>n. None) of
        st # sts \<Rightarrow> group (capturesOf st) 1 @ remaining st
      | [] \<Rightarrow> s)"

definition normalizeArticleNum :: "jsstring \<Rightarrow> jsstring" where
  "normalizeArticleNum raw =
     (if raw = [] then []
      else trim (removeWhitespace
                   (replaceWithGroup1 (CLASS_SEPARATOR 42)
                      (replaceWithGroup1 (CLASS_SEPARATOR 46) raw))))"

text \<open>\<^verbatim>\<open>[LRDA]\<close> under the flag \<^verbatim>\<open>i\<close>: the four class letters in either case.\<close>

definition isClassLetter :: "nat \<Rightarrow> bool" where
  "isClassLetter c \<longleftrightarrow> c \<in> set (cps ''LRDAlrda'')"

text \<open>\<^verbatim>\<open>/^([LRDA])(\d)/i\<close>: a class letter directly followed by a digit.\<close>

definition prefixMatch :: "jsstring \<Rightarrow> bool" where
  "prefixMatch s = (case s of c # d # rest \<Rightarrow> isClassLetter c \<and> isDigit d | _ \<Rightarrow> False)"

section \<open>Article titles (scripts/lib/parser.ts)\<close>

definition prefixNames :: "jsstring \<Rightarrow> jsstring option" where
  "prefixNames = map_of
     [(cps ''L'', cps ''L.''), (cps ''R'', cps ''R.''), (cps ''D'', cps ''D.''),
      (cps ''A'', cps ''A.'')]"

definition articleTitle :: "unicode \<Rightarrow> jsstring \<Rightarrow> jsstring" where
  "articleTitle U num =
     (let normalized = normalizeArticleNum num in
      if prefixMatch normalized then
        (let prefix = toUpperCase U (take 1 normalized);
             rest = drop 1 normalized
         in cps ''Article '' @ (case prefixNames prefix of Some n \<Rightarrow> n | None \<Rightarrow> prefix)
              @ cps '' '' @ rest)
      else cps ''Article '' @ normalized)"

section \<open>Citation parser (src/citation/parser.ts)\<close>

text \<open>
  Modelled from the spec: the declaration of \<^verbatim>\<open>ParsedCitation\<close> (src/types/index.ts)
  is not among the sources.  The record has the attributes of the data model under the
  names the code reads and writes: \<^verbatim>\<open>valid\<close>, \<^verbatim>\<open>type\<close> (statute or unknown),
  \<^verbatim>\<open>title\<close>, \<^verbatim>\<open>year\<close>, \<^verbatim>\<open>section\<close> (the article token, \<open>section'\<close> here)
  and \<^verbatim>\<open>error\<close>; the optional ones are absent where the code leaves them out.
\<close>

datatype citation_type = Statute | Unknown

record ParsedCitation =
  valid :: bool
  type :: citation_type
  title :: "jsstring option"
  year :: "nat option"
  section' :: "jsstring option"
  error :: "jsstring option"

text \<open>\<^verbatim>\<open>(?:[A-Za-z]\s*\.?\s*)?\d+(?:-\d+)*(?:-[A-Za-z0-9]+)*\<close>\<close>

definition ARTICLE_TOKEN :: regex where
  "ARTICLE_TOKEN =
     seqs [Opt (seqs [Cls isLetterIU, Star Space, Opt (Chr CHR ''.''), Star Space]),
           Plus Digit,
           Star (Seq (Chr CHR ''-'') (Plus Digit)),
           Star (Seq (Chr CHR ''-'') (Plus (Cls (\<lambda>c. isLetterIU c \<or> isDigit c))))]"

text \<open>\<^verbatim>\<open>(?:article|art\.?)\<close>\<close>

definition ARTICLE_KEYWORD :: regex where
  "ARTICLE_KEYWORD =
     Alt (seqs (map ChrCI ''article''))
         (Seq (seqs (map ChrCI ''art'')) (Opt (Chr CHR ''.'')))"

text \<open>\<^verbatim>\<open>^(.+?),\s*(?:article|art\.?)\s*(ARTICLE_TOKEN)\.?$\<close>\<close>

definition TITLE_THEN_ARTICLE :: regex where
  "TITLE_THEN_ARTICLE =
     seqs [Bol, Group 1 (LazyPlus Dot), Chr CHR '','', Star Space, ARTICLE_KEYWORD, Star Space,
           Group 2 ARTICLE_TOKEN, Opt (Chr CHR ''.''), Eol]"

text \<open>\<^verbatim>\<open>^(?:article|art\.?)\s*(ARTICLE_TOKEN)\s+d(?:e|u)\s+(.+)$\<close>\<close>

definition ARTICLE_THEN_TITLE :: regex where
  "ARTICLE_THEN_TITLE =
     seqs [Bol, ARTICLE_KEYWORD, Star Space, Group 1 ARTICLE_TOKEN, Plus Space, ChrCI CHR ''d'',
           Alt (ChrCI CHR ''e'') (ChrCI CHR ''u''), Plus Space, Group 2 (Plus Dot), Eol]"

text \<open>\<^verbatim>\<open>^(.+?)\s+(?:article|art\.?)\s*(ARTICLE_TOKEN)\.?$\<close>\<close>

definition TITLE_ARTICLE_NO_COMMA :: regex where
  "TITLE_ARTICLE_NO_COMMA =
     seqs [Bol, Group 1 (LazyPlus Dot), Plus Space, ARTICLE_KEYWORD, Star Space,
           Group 2 ARTICLE_TOKEN, Opt (Chr CHR ''.''), Eol]"

text \<open>\<^verbatim>\<open>/\b(1[89]\d{2}|20\d{2})\b/\<close>\<close>

definition YEAR :: regex where
  "YEAR =
     seqs [WordB,
           Group 1 (Alt (seqs [Chr CHR ''1'', Cls (\<lambda>c. c = 56 \<or> c = 57), Digit, Digit])
                        (seqs [Chr CHR ''2'', Chr CHR ''0'', Digit, Digit])),
           WordB]"

text \<open>\<^verbatim>\<open>Number.parseInt(s, 10)\<close> on a string of decimal digits.\<close>

definition parseInt :: "jsstring \<Rightarrow> nat" where
  "parseInt s = foldl (\<lambda>n c. 10 * n + (c - 48)) 0 s"

text \<open>U+2019 and the backtick become the ASCII apostrophe, then whitespace is collapsed
  and the string trimmed.\<close>

definition normalizeInput :: "jsstring \<Rightarrow> jsstring" where
  "normalizeInput v =
     trim (collapseWhitespace (map (\<lambda>c. if c = 8217 \<or> c = 96 then 39 else c) v))"

definition isTitlePunct :: "nat \<Rightarrow> bool" where
  "isTitlePunct c \<longleftrightarrow> c \<in> set (cps ''.,;:'')"

text \<open>\<^verbatim>\<open>.replace(/[.,;:]+$/u, '')\<close>: the leftmost match is the whole trailing run.\<close>

definition stripTrailingPunct :: "jsstring \<Rightarrow> jsstring" where
  "stripTrailingPunct v = rev (dropWhile isTitlePunct (rev v))"

definition normalizeTitle :: "jsstring \<Rightarrow> jsstring" where
  "normalizeTitle v = trim (collapseWhitespace (stripTrailingPunct v))"

text \<open>\<^verbatim>\<open>.replace(/\./g, '')\<close>\<close>

definition removePeriods :: "jsstring \<Rightarrow> jsstring" where
  "removePeriods s = filter (\<lambda>c. c \<noteq> 46) s"

definition normalizeArticleRef :: "unicode \<Rightarrow> jsstring \<Rightarrow> jsstring" where
  "normalizeArticleRef U v = toUpperCase U (removePeriods (removeWhitespace v))"

text \<open>The three patterns in the order of \<^verbatim>\<open>tryParsePatterns\<close>: the captured title and
  the captured token, before they are normalized.\<close>

definition matchPatterns :: "jsstring \<Rightarrow> (jsstring \<times> jsstring) option" where
  "matchPatterns citation =
     (case regexExec TITLE_THEN_ARTICLE citation of
        Some titleFirst \<Rightarrow> Some (group titleFirst 1, group titleFirst 2)
      | None \<Rightarrow>
     (case regexExec ARTICLE_THEN_TITLE citation of
        Some articleFirst \<Rightarrow> Some (group articleFirst 2, group articleFirst 1)
      | None \<Rightarrow>
     (case regexExec TITLE_ARTICLE_NO_COMMA citation of
        Some noComma \<Rightarrow> Some (group noComma 1, group noComma 2)
      | None \<Rightarrow> None)))"

definition tryParsePatterns :: "unicode \<Rightarrow> jsstring \<Rightarrow> (jsstring \<times> jsstring) option" where
  "tryParsePatterns U citation =
     (case matchPatterns citation of
        Some (t, tok) \<Rightarrow> Some (normalizeTitle t, normalizeArticleRef U tok)
      | None \<Rightarrow> None)"

definition parseCitation :: "unicode \<Rightarrow> jsstring \<Rightarrow> ParsedCitation" where
  "parseCitation U citation =
     (let trimmed = trim citation in
      if trimmed = [] then
        \<lparr>valid = False, type = Unknown, title = None, year = None, section' = None,
         error = Some (cps ''Empty citation'')\<rparr>
      else
        (case tryParsePatterns U (normalizeInput trimmed) of
           None \<Rightarrow>
             \<lparr>valid = False, type = Unknown, title = None, year = None, section' = None,
              error = Some (cps ''Could not parse French citation: \"'' @ trimmed @ cps ''\"'')\<rparr>
         | Some (t, s) \<Rightarrow>
             \<lparr>valid = True, type = Statute, title = Some t,
              year = (case regexExec YEAR t of
                        Some yearMatch \<Rightarrow> Some (parseInt (group yearMatch 1))
                      | None \<Rightarrow> None),
              section' = Some s, error = None\<rparr>))"

section \<open>Citation validator (src/citation/validator.ts)\<close>

text \<open>The rows of \<^verbatim>\<open>legal_documents\<close> and \<^verbatim>\<open>legal_provisions\<close> that the validator
  reads; \<^verbatim>\<open>short_name\<close> is the only nullable column among them.\<close>

record document =
  doc_id :: jsstring
  doc_title :: jsstring
  short_name :: "jsstring option"
  doc_status :: jsstring

record provision =
  document_id :: jsstring
  provision_ref :: jsstring
  prov_section :: jsstring

record database =
  legal_documents :: "document list"
  legal_provisions :: "provision list"

text \<open>
  Modelled from the spec: the declaration of \<^verbatim>\<open>ValidationResult\<close> (src/types/index.ts)
  is not among the sources.  The record has the fields that \<^verbatim>\<open>validateCitation\<close>
  returns.
\<close>

record ValidationResult =
  citation :: ParsedCitation
  document_exists :: bool
  provision_exists :: bool
  document_title :: "jsstring option"
  status :: "jsstring option"
  warnings :: "jsstring list"

definition isLowerAlnum :: "nat \<Rightarrow> bool" where
  "isLowerAlnum c \<longleftrightarrow> isAsciiLower c \<or> isDigit c"

definition normalizeLookup :: "unicode \<Rightarrow> jsstring \<Rightarrow> jsstring" where
  "normalizeLookup U v =
     trim (collapseRuns (\<lambda>c. \<not> isLowerAlnum c)
             (toLowerCase U (filter (\<lambda>c. \<not> isMark U c) (normalizeNFD U v))))"

text \<open>The inner loop of \<^verbatim>\<open>validateCitation\<close>: the score of one document.\<close>

definition scoreCandidate :: "unicode \<Rightarrow> jsstring \<Rightarrow> nat \<Rightarrow> jsstring \<Rightarrow> nat" where
  "scoreCandidate U target score candidate =
     (if candidate = [] then score
      else
        (let normalized = normalizeLookup U candidate in
         if normalized = [] then score
         else if normalized = target then max score 4
         else if includesStr normalized target then max score 3
         else if includesStr target normalized then max score 2
         else score))"

definition docScore :: "unicode \<Rightarrow> jsstring \<Rightarrow> document \<Rightarrow> nat" where
  "docScore U target doc =
     foldl (scoreCandidate U target) 0
       [doc_title doc, (case short_name doc of Some n \<Rightarrow> n | None \<Rightarrow> []), doc_id doc]"

text \<open>The outer loop: \<open>bestDoc\<close> and \<open>bestScore\<close>, starting from no document and -1.\<close>

definition bestStep ::
  "unicode \<Rightarrow> jsstring \<Rightarrow> document option \<times> int \<Rightarrow> document \<Rightarrow> document option \<times> int" where
  "bestStep U target best doc =
     (let score = int (docScore U target doc) in
      if score > snd best then (Some doc, score) else best)"

definition findBestDoc :: "unicode \<Rightarrow> jsstring \<Rightarrow> document list \<Rightarrow> document option" where
  "findBestDoc U target docs =
     (let best = foldl (bestStep U target) (None, - 1) docs in
      if snd best > 0 then fst best else None)"

text \<open>\<^verbatim>\<open>/^([A-Z])(\d.*)$/\<close>: an upper-case ASCII letter, a digit, and no line terminator
  up to the end.\<close>

definition letterMatch :: "jsstring \<Rightarrow> (nat \<times> jsstring) option" where
  "letterMatch s =
     (case s of
        c # d # rest \<Rightarrow>
          if isAsciiUpper c \<and> isDigit d \<and> list_all (\<lambda>x. \<not> isLineTerminator x) rest
          then Some (c, d # rest) else None
      | _ \<Rightarrow> None)"

text \<open>\<^verbatim>\<open>.replace(/^ART/i, '')\<close>\<close>

definition stripArtPrefix :: "jsstring \<Rightarrow> jsstring" where
  "stripArtPrefix s = (if map asciiUpper (take 3 s) = cps ''ART'' then drop 3 s else s)"

text \<open>Adding to a \<^verbatim>\<open>Set\<close>, which keeps insertion order.\<close>

definition setAdd :: "jsstring list \<Rightarrow> jsstring \<Rightarrow> jsstring list" where
  "setAdd xs x = (if x \<in> set xs then xs else xs @ [x])"

definition buildSectionCandidates :: "unicode \<Rightarrow> jsstring \<Rightarrow> jsstring list" where
  "buildSectionCandidates U sec =
     (let normalized = toUpperCase U (removePeriods (removeWhitespace sec));
          withoutArtPrefix = stripArtPrefix normalized;
          candidates = setAdd (setAdd [] normalized) withoutArtPrefix;
          candidates' = (case letterMatch withoutArtPrefix of
                           Some (l, r) \<Rightarrow> setAdd candidates (l # r)
                         | None \<Rightarrow> candidates)
      in filter (\<lambda>c. c \<noteq> []) candidates')"

text \<open>The provision query.  \<^verbatim>\<open>upper\<close> and \<^verbatim>\<open>lower\<close> of SQLite change ASCII letters
  only.\<close>

definition provisionFound :: "database \<Rightarrow> jsstring \<Rightarrow> jsstring list \<Rightarrow> jsstring list \<Rightarrow> bool" where
  "provisionFound db docId sectionCandidates provisionRefCandidates =
     list_ex (\<lambda>p. document_id p = docId \<and>
                 (map asciiUpper (removePeriods (prov_section p)) \<in> set sectionCandidates \<or>
                  map asciiLower (provision_ref p) \<in> set provisionRefCandidates))
       (legal_provisions db)"

definition notFoundResult :: "ParsedCitation \<Rightarrow> jsstring \<Rightarrow> ValidationResult" where
  "notFoundResult parsed warning =
     \<lparr>citation = parsed, document_exists = False, provision_exists = False,
      document_title = None, status = None, warnings = [warning]\<rparr>"

text \<open>The body of \<^verbatim>\<open>validateCitation\<close> after the citation has been parsed.\<close>

definition validateParsed :: "unicode \<Rightarrow> database \<Rightarrow> ParsedCitation \<Rightarrow> ValidationResult" where
  "validateParsed U db parsed =
     (if \<not> valid parsed then
        notFoundResult parsed
          (case error parsed of Some e \<Rightarrow> e | None \<Rightarrow> cps ''Invalid citation format'')
      else
        (case title parsed of
           None \<Rightarrow> notFoundResult parsed
                     (cps ''Citation does not include a recognizable statute title'')
         | Some t \<Rightarrow>
             if t = [] then
               notFoundResult parsed
                 (cps ''Citation does not include a recognizable statute title'')
             else
               (case findBestDoc U (normalizeLookup U t) (legal_documents db) of
                  None \<Rightarrow> notFoundResult parsed
                            (cps ''Document \"'' @ t @ cps ''\" not found in database'')
                | Some doc \<Rightarrow>
                    (let warnings1 = (if doc_status doc = cps ''repealed''
                                      then [cps ''This statute has been repealed''] else []);
                         sec = (case section' parsed of Some s \<Rightarrow> s | None \<Rightarrow> []);
                         sectionCandidates = buildSectionCandidates U sec;
                         provisionRefCandidates =
                           map (\<lambda>v. if startsWith v (cps ''ART'') then toLowerCase U v
                                     else toLowerCase U (cps ''art'' @ v))
                             sectionCandidates;
                         provisionExists =
                           (if sec = [] then True
                            else provisionFound db (doc_id doc) sectionCandidates
                                   provisionRefCandidates);
                         warnings2 =
                           (if provisionExists then warnings1
                            else warnings1 @ [cps ''Article '' @ sec @ cps '' not found in ''
                                                @ doc_title doc])
                     in \<lparr>citation = parsed, document_exists = True,
                          provision_exists = provisionExists,
                          document_title = Some (doc_title doc),
                          status = Some (doc_status doc), warnings = warnings2\<rparr>))))"

definition validateCitation :: "unicode \<Rightarrow> database \<Rightarrow> jsstring \<Rightarrow> ValidationResult" where
  "validateCitation U db c = validateParsed U db (parseCitation U c)"

section \<open>Citation formatter (src/citation/formatter.ts)\<close>

definition buildArticleRef :: "unicode \<Rightarrow> jsstring \<Rightarrow> jsstring" where
  "buildArticleRef U sec =
     (let normalized = toUpperCase U (removePeriods (removeWhitespace sec)) in
      case letterMatch normalized of
        Some (l, r) \<Rightarrow> [l] @ cps ''. '' @ r
      | None \<Rightarrow> normalized)"

definition formatCitation :: "unicode \<Rightarrow> ParsedCitation \<Rightarrow> jsstring \<Rightarrow> jsstring" where
  "formatCitation U parsed format =
     (case section' parsed of
        None \<Rightarrow> []
      | Some sec \<Rightarrow>
          if \<not> valid parsed \<or> sec = [] then []
          else
            (let article = buildArticleRef U sec;
                 t = (case title parsed of Some t \<Rightarrow> t | None \<Rightarrow> [])
             in if format = cps ''short'' then
                  (if t \<noteq> [] then t @ cps '' art. '' @ article else cps ''art. '' @ article)
                else if format = cps ''pinpoint'' then cps ''art. '' @ article
                else
                  (if t \<noteq> [] then t @ cps '', art. '' @ article else cps ''art. '' @ article)))"

section \<open>Full-text query builder (src/utils/fts-query.ts)\<close>

record FtsQueryVariants =
  primary :: jsstring
  fallback :: "jsstring option"

text \<open>\<^verbatim>\<open>/[():{}^+.]/g\<close>\<close>

definition isFts5Special :: "nat \<Rightarrow> bool" where
  "isFts5Special c \<longleftrightarrow> c \<in> set (cps ''():{}^+.'')"

definition sanitizeFtsInput :: "jsstring \<Rightarrow> jsstring" where
  "sanitizeFtsInput raw =
     trim (collapseWhitespace (map (\<lambda>c. if isFts5Special c then 32 else c) raw))"

text \<open>\<^verbatim>\<open>\bWORD\b\<close> somewhere in a string, for a word of word characters: the word
  stands there with no word character directly before or after it.  \<open>prev\<close> is the
  character before the string.\<close>

fun hasWord :: "jsstring \<Rightarrow> nat option \<Rightarrow> jsstring \<Rightarrow> bool" where
  "hasWord w prev [] \<longleftrightarrow> False"
| "hasWord w prev (c # cs) \<longleftrightarrow>
     (\<not> (case prev of Some p \<Rightarrow> isWordChar p | None \<Rightarrow> False) \<and>
      startsWith (c # cs) w \<and>
      \<not> (case drop (length w) (c # cs) of d # ds \<Rightarrow> isWordChar d | [] \<Rightarrow> False))
     \<or> hasWord w (Some c) cs"

text \<open>\<^verbatim>\<open>/["""]|(\bAND\b)|(\bOR\b)|(\bNOT\b)|\*$/\<close>\<close>

definition EXPLICIT_FTS_SYNTAX :: "jsstring \<Rightarrow> bool" where
  "EXPLICIT_FTS_SYNTAX s \<longleftrightarrow>
     34 \<in> set s \<or> hasWord (cps ''AND'') None s \<or> hasWord (cps ''OR'') None s \<or>
     hasWord (cps ''NOT'') None s \<or> (s \<noteq> [] \<and> last s = 42)"

text \<open>\<^verbatim>\<open>.split(/\s+/)\<close>\<close>

function splitWhitespace :: "jsstring \<Rightarrow> jsstring list" where
  "splitWhitespace s =
     (let tok = takeWhile (\<lambda>c. \<not> isWhitespace c) s;
          rest = dropWhile (\<lambda>c. \<not> isWhitespace c) s
      in if rest = [] then [tok] else tok # splitWhitespace (dropWhile isWhitespace rest))"
  by pat_completeness auto
termination
proof (relation "measure length", simp, goal_cases)
  case (1 s tok rest)
  let ?r = "dropWhile (\<lambda>c. \<not> isWhitespace c) s"
  from 1 have "?r \<noteq> []" by blast
  then obtain a as where r: "?r = a # as" by (cases ?r) simp_all
  have "isWhitespace (hd ?r)"
    using hd_dropWhile[of "\<lambda>c. \<not> isWhitespace c" s] \<open>?r \<noteq> []\<close> by blast
  with r have "dropWhile isWhitespace ?r = dropWhile isWhitespace as" by simp
  moreover have "length (dropWhile isWhitespace as) \<le> length as"
    by (rule length_dropWhile_le)
  ultimately have "length (dropWhile isWhitespace ?r) < length ?r"
    using r by simp
  moreover have "length ?r \<le> length s" by (rule length_dropWhile_le)
  ultimately have "length (dropWhile isWhitespace ?r) < length s" by simp
  with 1 show ?case by simp
qed

declare splitWhitespace.simps [simp del]

text \<open>\<^verbatim>\<open>/[^\w\s\u00C0-\u024F-]/g\<close>: the characters a token keeps.\<close>

definition isTokenChar :: "nat \<Rightarrow> bool" where
  "isTokenChar c \<longleftrightarrow> isWordChar c \<or> isWhitespace c \<or> (192 \<le> c \<and> c \<le> 591) \<or> c = 45"

definition buildFtsQueryVariants :: "jsstring \<Rightarrow> FtsQueryVariants" where
  "buildFtsQueryVariants query =
     (let trimmed = trim query in
      if EXPLICIT_FTS_SYNTAX trimmed then
        (let sanitized = sanitizeFtsInput trimmed in
         \<lparr>primary = (if sanitized \<noteq> [] then sanitized else trimmed), fallback = None\<rparr>)
      else
        (let tokens = map (filter isTokenChar)
                        (filter (\<lambda>t. length t > 0) (splitWhitespace (sanitizeFtsInput trimmed)))
         in if length tokens = 0 then \<lparr>primary = trimmed, fallback = None\<rparr>
            else \<lparr>primary = joinWith (cps '' '') (map (\<lambda>t. cps ''\"'' @ t @ cps ''\"*'') tokens),
                  fallback = Some (joinWith (cps '' OR '') (map (\<lambda>t. t @ cps ''*'') tokens))\<rparr>))"

section \<open>Notions used in the statements and proofs\<close>

text \<open>
  The closed form of the two replacements of \<open>normalizeArticleNum\<close>: when the string
  starts with a class letter directly followed by \<open>sep\<close>, the separator and the
  whitespace after it are dropped and the letter is put back as it was captured.
\<close>

definition stripClassSeparator :: "nat \<Rightarrow> jsstring \<Rightarrow> jsstring" where
  "stripClassSeparator sep s =
     (case s of
        c # d # rest \<Rightarrow>
          if isClassLetter c \<and> d = sep then c # dropWhile isWhitespace rest else s
      | _ \<Rightarrow> s)"

text \<open>A string that starts with a class letter directly followed by a period or an
  asterisk.\<close>

definition startsWithClassSeparator :: "jsstring \<Rightarrow> bool" where
  "startsWithClassSeparator s =
     (case s of c # d # rest \<Rightarrow> isClassLetter c \<and> (d = 46 \<or> d = 42) | _ \<Rightarrow> False)"

text \<open>The characters that some character class of a pattern accepts.\<close>

fun accepts :: "regex \<Rightarrow> nat \<Rightarrow> bool" where
  "accepts (Cls P) c \<longleftrightarrow> P c"
| "accepts (Seq a b) c \<longleftrightarrow> accepts a c \<or> accepts b c"
| "accepts (Alt a b) c \<longleftrightarrow> accepts a c \<or> accepts b c"
| "accepts (Opt a) c \<longleftrightarrow> accepts a c"
| "accepts (Star a) c \<longleftrightarrow> accepts a c"
| "accepts (LazyStar a) c \<longleftrightarrow> accepts a c"
| "accepts (Group n a) c \<longleftrightarrow> accepts a c"
| "accepts Bol c \<longleftrightarrow> False"
| "accepts Eol c \<longleftrightarrow> False"
| "accepts WordB c \<longleftrightarrow> False"

text \<open>From \<open>st\<close> to \<open>st'\<close> the matcher consumed characters of \<open>Q\<close> only.\<close>

definition consumed :: "(nat \<Rightarrow> bool) \<Rightarrow> mstate \<Rightarrow> mstate \<Rightarrow> bool" where
  "consumed Q st st' \<longleftrightarrow> (\<exists>w. remaining st = w @ remaining st' \<and> list_all Q w)"

text \<open>The pattern sets group \<open>n\<close> in every match.\<close>

fun setsGroup :: "nat \<Rightarrow> regex \<Rightarrow> bool" where
  "setsGroup n (Group m a) \<longleftrightarrow> m = n \<or> setsGroup n a"
| "setsGroup n (Seq a b) \<longleftrightarrow> setsGroup n a \<or> setsGroup n b"
| "setsGroup n (Alt a b) \<longleftrightarrow> setsGroup n a \<and> setsGroup n b"
| "setsGroup n r \<longleftrightarrow> False"

text \<open>Whatever a group numbered \<open>n\<close> of the pattern matches satisfies \<open>R\<close>.\<close>

fun groupSat :: "(jsstring \<Rightarrow> bool) \<Rightarrow> nat \<Rightarrow> regex \<Rightarrow> bool" where
  "groupSat R n (Cls P) \<longleftrightarrow> True"
| "groupSat R n (Seq a b) \<longleftrightarrow> groupSat R n a \<and> groupSat R n b"
| "groupSat R n (Alt a b) \<longleftrightarrow> groupSat R n a \<and> groupSat R n b"
| "groupSat R n (Opt a) \<longleftrightarrow> groupSat R n a"
| "groupSat R n (Star a) \<longleftrightarrow> groupSat R n a"
| "groupSat R n (LazyStar a) \<longleftrightarrow> groupSat R n a"
| "groupSat R n (Group m a) \<longleftrightarrow>
     (m = n \<longrightarrow>
        (\<forall>st x w. x \<in> set (rmatch a st) \<longrightarrow> remaining st = w @ remaining x \<longrightarrow> R w))
     \<and> groupSat R n a"
| "groupSat R n Bol \<longleftrightarrow> True"
| "groupSat R n Eol \<longleftrightarrow> True"
| "groupSat R n WordB \<longleftrightarrow> True"

definition capturedSat :: "(jsstring \<Rightarrow> bool) \<Rightarrow> nat \<Rightarrow> captures \<Rightarrow> bool" where
  "capturedSat R n caps \<longleftrightarrow> (case caps n of None \<Rightarrow> False | Some w \<Rightarrow> R w)"

text \<open>What every string matched by the token grammar has: a digit, and no asterisk.\<close>

definition tokenShape :: "jsstring \<Rightarrow> bool" where
  "tokenShape w \<longleftrightarrow> list_ex isDigit w \<and> list_all (\<lambda>c. c \<noteq> 42) w"

text \<open>A token in its stored upper-case form: digits, hyphens and upper-case ASCII
  letters; when it starts with a letter directly followed by a digit, the letter is a
  class letter.\<close>

definition isTokenBodyChar :: "nat \<Rightarrow> bool" where
  "isTokenBodyChar c \<longleftrightarrow> isDigit c \<or> isAsciiUpper c \<or> c = 45"

definition upperToken :: "jsstring \<Rightarrow> bool" where
  "upperToken t \<longleftrightarrow>
     list_all isTokenBodyChar t \<and>
     (case t of c # d # r \<Rightarrow> \<not> (isAsciiUpper c \<and> isDigit d) \<or> isClassLetter c | _ \<Rightarrow> True)"

section \<open>Facts about the string operations\<close>

lemmas cls_defs = isWhitespace_def isLineTerminator_def isDigit_def isAsciiUpper_def
  isAsciiLower_def isWordChar_def isLetterIU_def asciiLower_def asciiUpper_def

lemmas rx_defs = TITLE_THEN_ARTICLE_def ARTICLE_THEN_TITLE_def TITLE_ARTICLE_NO_COMMA_def
  ARTICLE_TOKEN_def ARTICLE_KEYWORD_def YEAR_def Plus_def LazyPlus_def Chr_def ChrCI_def
  Space_def Digit_def Dot_def

lemmas st_defs = remaining_def capturesOf_def progress_def setCapture_def atWordBoundary_def

lemmas parse_eval = parseCitation_def tryParsePatterns_def matchPatterns_def regexExec_def
  regexExecFrom.simps normalizeInput_def normalizeTitle_def normalizeArticleRef_def
  stripTrailingPunct_def isTitlePunct_def collapseWhitespace_def removePeriods_def
  removeWhitespace_def trim_def toUpperCase_def group_def parseInt_def cps_def rx_defs
  cls_defs st_defs

lemmas validate_eval = validateCitation_def validateParsed_def notFoundResult_def
  findBestDoc_def bestStep_def docScore_def scoreCandidate_def normalizeLookup_def
  toLowerCase_def normalizeNFD_def isMark_def isAscii_def isLowerAlnum_def startsWith_def
  buildSectionCandidates_def stripArtPrefix_def setAdd_def letterMatch_def provisionFound_def
  plainUnicode_def

lemmas fts_eval = buildFtsQueryVariants_def EXPLICIT_FTS_SYNTAX_def sanitizeFtsInput_def
  isFts5Special_def isTokenChar_def collapseWhitespace_def startsWith_def trim_def cps_def
  splitWhitespace.simps

lemma trim_no_outer_whitespace:
  assumes "s = [] \<or> (\<not> isWhitespace (hd s) \<and> \<not> isWhitespace (last s))"
  shows "trim s = s"
proof (cases s)
  case Nil
  then show ?thesis by (simp add: trim_def)
next
  case (Cons a as)
  with assms have h: "\<not> isWhitespace a" and l: "\<not> isWhitespace (last s)" by auto
  from Cons h have "dropWhile isWhitespace s = s" by simp
  moreover from Cons l have "dropWhile isWhitespace (rev s) = rev s"
    by (cases "rev s") (auto simp: hd_rev[symmetric])
  ultimately show ?thesis by (simp add: trim_def)
qed

lemma trim_removeWhitespace [simp]: "trim (removeWhitespace s) = removeWhitespace s"
proof (rule trim_no_outer_whitespace)
  let ?t = "removeWhitespace s"
  have all: "\<forall>c \<in> set ?t. \<not> isWhitespace c" by (simp add: removeWhitespace_def)
  show "?t = [] \<or> (\<not> isWhitespace (hd ?t) \<and> \<not> isWhitespace (last ?t))"
  proof (cases "?t = []")
    case True
    then show ?thesis by simp
  next
    case False
    then have "hd ?t \<in> set ?t" "last ?t \<in> set ?t" by simp_all
    with all show ?thesis by blast
  qed
qed

lemma removeWhitespace_idem [simp]:
  "removeWhitespace (removeWhitespace s) = removeWhitespace s"
  by (simp add: removeWhitespace_def)

lemma removeWhitespace_dropWhile [simp]:
  "removeWhitespace (dropWhile isWhitespace s) = removeWhitespace s"
  by (induction s) (simp_all add: removeWhitespace_def)

lemma removeWhitespace_Cons:
  "removeWhitespace (c # s) = (if isWhitespace c then removeWhitespace s else c # removeWhitespace s)"
  by (simp add: removeWhitespace_def)

lemma removeWhitespace_all_whitespace:
  "list_all isWhitespace ws \<Longrightarrow> removeWhitespace (ws @ s) = removeWhitespace s"
  by (induction ws) (simp_all add: removeWhitespace_def)

lemma dropWhile_all_whitespace:
  "list_all isWhitespace ws \<Longrightarrow> dropWhile isWhitespace (ws @ s) = dropWhile isWhitespace s"
  by (induction ws) simp_all

lemma isClassLetter_not_whitespace: "isClassLetter c \<Longrightarrow> \<not> isWhitespace c"
  by (auto simp: isClassLetter_def cps_def isWhitespace_def)

lemma isDigit_not_whitespace: "isDigit c \<Longrightarrow> \<not> isWhitespace c"
  by (auto simp: isDigit_def isWhitespace_def)

lemma separator_not_whitespace: "\<not> isWhitespace 46" "\<not> isWhitespace 42"
  by (simp_all add: isWhitespace_def)

lemma rmatch_Star_Cls_greedy:
  "\<exists>p sts. rmatch (Star (Cls P)) (prev, s, caps) = (p, dropWhile P s, caps) # sts"
proof (induction s arbitrary: prev)
  case Nil
  then show ?case by (simp add: remaining_def)
next
  case (Cons c cs)
  show ?case
  proof (cases "P c")
    case True
    from Cons[of "Some c"] obtain p sts where
      "rmatch (Star (Cls P)) (Some c, cs, caps) = (p, dropWhile P cs, caps) # sts"
      by blast
    with True show ?thesis
      by (subst rmatch.simps)
        (simp add: remaining_def capturesOf_def progress_def del: rmatch.simps(5))
  next
    case False
    then show ?thesis
      by (subst rmatch.simps) (simp add: remaining_def capturesOf_def)
  qed
qed

lemma classLetter_alt:
  "rmatch (Alt (ChrCI CHR ''L'') (Alt (ChrCI CHR ''R'') (Alt (ChrCI CHR ''D'') (ChrCI CHR ''A''))))
     (prev, s, caps) =
   (case s of c # cs \<Rightarrow> if isClassLetter c then [(Some c, cs, caps)] else [] | [] \<Rightarrow> [])"
  by (cases s)
    (auto simp: ChrCI_def remaining_def capturesOf_def isClassLetter_def cps_def asciiLower_def
      isAsciiUpper_def)

lemma replaceWithGroup1_CLASS_SEPARATOR:
  "replaceWithGroup1 (CLASS_SEPARATOR sep) s = stripClassSeparator sep s"
proof (cases s)
  case Nil
  then show ?thesis
    by (simp add: replaceWithGroup1_def CLASS_SEPARATOR_def stripClassSeparator_def classLetter_alt
        del: rmatch.simps(3))
next
  case (Cons c s')
  note s = this
  show ?thesis
  proof (cases s')
    case Nil
    with s show ?thesis
      by (simp add: replaceWithGroup1_def CLASS_SEPARATOR_def stripClassSeparator_def
          classLetter_alt remaining_def setCapture_def capturesOf_def del: rmatch.simps(3))
  next
    case (Cons d rest)
    obtain p sts where g: "rmatch (Star Space) (Some sep, rest, (\<lambda>n. None)(1 \<mapsto> [c])) =
        (p, dropWhile isWhitespace rest, (\<lambda>n. None)(1 \<mapsto> [c])) # sts"
      using rmatch_Star_Cls_greedy[of isWhitespace "Some sep" rest "(\<lambda>n. None)(1 \<mapsto> [c])"]
      by (auto simp: Space_def)
    show ?thesis
      using s Cons g
      by (simp add: replaceWithGroup1_def CLASS_SEPARATOR_def stripClassSeparator_def
          classLetter_alt remaining_def setCapture_def capturesOf_def group_def
          del: rmatch.simps(3,5))
  qed
qed

text \<open>\<open>normalizeArticleNum\<close> in closed form.\<close>

lemma normalizeArticleNum_eq:
  "normalizeArticleNum s = removeWhitespace (stripClassSeparator 42 (stripClassSeparator 46 s))"
  by (cases s)
    (simp_all add: normalizeArticleNum_def replaceWithGroup1_CLASS_SEPARATOR
      stripClassSeparator_def removeWhitespace_def[of "[]"])

lemmas norm_eval = normalizeArticleNum_eq stripClassSeparator_def isClassLetter_def cps_def
  removeWhitespace_def isWhitespace_def trim_def isDigit_def

lemma normalizeArticleNum_no_whitespace:
  "removeWhitespace (normalizeArticleNum s) = normalizeArticleNum s"
  by (simp add: normalizeArticleNum_eq)

lemma stripClassSeparator_fixed:
  "\<not> startsWithClassSeparator s \<Longrightarrow> stripClassSeparator sep s = s \<or> (sep \<noteq> 46 \<and> sep \<noteq> 42)"
  by (auto simp: startsWithClassSeparator_def stripClassSeparator_def split: list.splits)

lemma stripClassSeparator_length: "length (stripClassSeparator sep s) \<le> length s"
  by (auto simp: stripClassSeparator_def length_dropWhile_le le_SucI split: list.splits)

lemma stripClassSeparator_shorter:
  assumes "startsWithClassSeparator s"
  shows "length (stripClassSeparator 42 (stripClassSeparator 46 s)) < length s"
proof -
  from assms obtain c d rest where s: "s = c # d # rest" and c: "isClassLetter c"
    and d: "d = 46 \<or> d = 42"
    by (auto simp: startsWithClassSeparator_def split: list.splits)
  have le: "length (dropWhile isWhitespace rest) \<le> length rest" by (rule length_dropWhile_le)
  from d show ?thesis
  proof
    assume "d = 46"
    then have "length (stripClassSeparator 46 s) < length s"
      using s c le by (simp add: stripClassSeparator_def)
    with stripClassSeparator_length[of 42 "stripClassSeparator 46 s"] show ?thesis by simp
  next
    assume "d = 42"
    then show ?thesis using s c le by (simp add: stripClassSeparator_def)
  qed
qed

lemma removeWhitespace_length: "length (removeWhitespace s) \<le> length s"
  by (simp add: removeWhitespace_def)

text \<open>A token without whitespace, period or asterisk is already normalized.\<close>

lemma normalizeArticleNum_token_fixed:
  assumes "list_all (\<lambda>c. \<not> isWhitespace c \<and> c \<noteq> 46 \<and> c \<noteq> 42) t"
  shows "normalizeArticleNum t = t"
proof -
  from assms have "\<not> startsWithClassSeparator t"
    by (auto simp: startsWithClassSeparator_def split: list.splits)
  then have "stripClassSeparator 46 t = t" "stripClassSeparator 42 t = t"
    using stripClassSeparator_fixed by blast+
  moreover from assms have "removeWhitespace t = t"
    by (induction t) (auto simp: removeWhitespace_def)
  ultimately show ?thesis by (simp add: normalizeArticleNum_eq)
qed

section \<open>Facts about the matcher\<close>

lemma consumed_refl: "consumed Q st st"
  by (auto simp: consumed_def)

lemma consumed_trans: "consumed Q st st' \<Longrightarrow> consumed Q st' st'' \<Longrightarrow> consumed Q st st''"
  by (fastforce simp: consumed_def)

lemma consumed_mono: "consumed P st st' \<Longrightarrow> (\<And>c. P c \<Longrightarrow> Q c) \<Longrightarrow> consumed Q st st'"
  by (auto simp: consumed_def list_all_iff)

lemma rmatch_consumed: "st' \<in> set (rmatch r st) \<Longrightarrow> consumed (accepts r) st st'"
proof (induction r st arbitrary: st' rule: rmatch.induct)
  case (1 P st)
  then obtain c cs where "remaining st = c # cs" "P c" "remaining st' = cs"
    by (cases "remaining st") (auto simp: remaining_def split: if_splits)
  then have "remaining st = [c] @ remaining st'" "list_all P [c]" by simp_all
  then show ?case unfolding consumed_def accepts.simps by blast
next
  case (2 a b st)
  from 2(3) obtain x where x: "x \<in> set (rmatch a st)" and s: "st' \<in> set (rmatch b x)" by auto
  from 2(1)[OF x] have "consumed (accepts (Seq a b)) st x" by (rule consumed_mono) simp
  moreover from 2(2)[OF x s] have "consumed (accepts (Seq a b)) x st'" by (rule consumed_mono) simp
  ultimately show ?case by (rule consumed_trans)
next
  case (3 a b st)
  from 3(3) consider "st' \<in> set (rmatch a st)" | "st' \<in> set (rmatch b st)" by auto
  then show ?case
  proof cases
    case 1 from 3(1)[OF this] show ?thesis by (rule consumed_mono) simp
  next
    case 2 from 3(2)[OF this] show ?thesis by (rule consumed_mono) simp
  qed
next
  case (4 a st)
  from 4(2) consider "st' \<in> set (rmatch a st)" | "st' = st" by auto
  then show ?case
  proof cases
    case 1 from 4(1)[OF this] show ?thesis by (rule consumed_mono) simp
  next
    case 2 then show ?thesis by (simp add: consumed_refl)
  qed
next
  case (5 a st)
  from 5(3) consider x where "x \<in> set (rmatch a st)" "progress st x" "st' \<in> set (rmatch (Star a) x)"
    | "st' = st"
    by (subst (asm) rmatch.simps) (auto simp del: rmatch.simps split: if_splits)
  then show ?case
  proof cases
    case 1
    from 5(1)[OF 1(1)] have "consumed (accepts (Star a)) st x" by (rule consumed_mono) simp
    moreover from 5(2)[OF 1] have "consumed (accepts (Star a)) x st'" .
    ultimately show ?thesis by (rule consumed_trans)
  next
    case 2 then show ?thesis by (simp add: consumed_refl)
  qed
next
  case (6 a st)
  from 6(3) consider x where "x \<in> set (rmatch a st)" "progress st x" "st' \<in> set (rmatch (LazyStar a) x)"
    | "st' = st"
    by (subst (asm) rmatch.simps) (auto simp del: rmatch.simps split: if_splits)
  then show ?case
  proof cases
    case 1
    from 6(1)[OF 1(1)] have "consumed (accepts (LazyStar a)) st x" by (rule consumed_mono) simp
    moreover from 6(2)[OF 1] have "consumed (accepts (LazyStar a)) x st'" .
    ultimately show ?thesis by (rule consumed_trans)
  next
    case 2 then show ?thesis by (simp add: consumed_refl)
  qed
next
  case (7 n a st)
  from 7(2) obtain x where x: "x \<in> set (rmatch a st)" and s: "st' = setCapture n st x" by auto
  from 7(1)[OF x] show ?case using s
    by (simp add: consumed_def setCapture_def remaining_def)
next
  case (8 st)
  then show ?case by (auto simp: consumed_refl split: if_splits)
next
  case (9 st)
  then show ?case by (auto simp: consumed_refl split: if_splits)
next
  case (10 st)
  then show ?case by (auto simp: consumed_refl split: if_splits)
qed

lemma rmatch_remaining:
  "x \<in> set (rmatch r st) \<Longrightarrow> \<exists>w. remaining st = w @ remaining x"
  using rmatch_consumed[of x r st] by (auto simp: consumed_def)

lemma rmatch_Seq_elim:
  assumes "x \<in> set (rmatch (Seq a b) st)"
  obtains y where "y \<in> set (rmatch a st)" "x \<in> set (rmatch b y)"
  using assms by auto

lemma rmatch_capturedSat:
  "st' \<in> set (rmatch r st) \<Longrightarrow> groupSat R n r
     \<Longrightarrow> setsGroup n r \<or> capturedSat R n (capturesOf st)
     \<Longrightarrow> capturedSat R n (capturesOf st')"
proof (induction r st arbitrary: st' rule: rmatch.induct)
  case (1 P st)
  then show ?case
    by (auto simp: capturesOf_def split: list.splits if_splits)
next
  case (2 a b st)
  note ih1 = 2(1) and ih2 = 2(2)
  from 2(3) obtain x where x: "x \<in> set (rmatch a st)" and s: "st' \<in> set (rmatch b x)" by auto
  from 2(4) have ga: "groupSat R n a" and gb: "groupSat R n b" by simp_all
  from 2(5) consider (A) "setsGroup n a" | (B) "setsGroup n b"
    | (C) "capturedSat R n (capturesOf st)" by auto
  then show ?case
  proof cases
    case A
    with ih1[OF x ga] have "capturedSat R n (capturesOf x)" by simp
    with ih2[OF x s gb] show ?thesis by simp
  next
    case B
    with ih2[OF x s gb] show ?thesis by simp
  next
    case C
    with ih1[OF x ga] have "capturedSat R n (capturesOf x)" by simp
    with ih2[OF x s gb] show ?thesis by simp
  qed
next
  case (3 a b st)
  note ih1 = 3(1) and ih2 = 3(2)
  from 3(4) have ga: "groupSat R n a" and gb: "groupSat R n b" by simp_all
  from 3(5) have ha: "setsGroup n a \<or> capturedSat R n (capturesOf st)"
    and hb: "setsGroup n b \<or> capturedSat R n (capturesOf st)" by auto
  from 3(3) consider (A) "st' \<in> set (rmatch a st)" | (B) "st' \<in> set (rmatch b st)" by auto
  then show ?case
  proof cases
    case A
    from ih1[OF A ga ha] show ?thesis .
  next
    case B
    from ih2[OF B gb hb] show ?thesis .
  qed
next
  case (4 a st)
  note ih = 4(1)
  from 4(3) have ga: "groupSat R n a" by simp
  from 4(4) have c: "capturedSat R n (capturesOf st)" by simp
  from 4(2) consider (A) "st' \<in> set (rmatch a st)" | (B) "st' = st" by auto
  then show ?case
  proof cases
    case A
    from ih[OF A ga] c show ?thesis by simp
  next
    case B
    with c show ?thesis by simp
  qed
next
  case (5 a st)
  from 5(3) consider x where "x \<in> set (rmatch a st)" "progress st x" "st' \<in> set (rmatch (Star a) x)"
    | "st' = st"
    by (subst (asm) rmatch.simps) (auto simp del: rmatch.simps split: if_splits)
  then show ?case
  proof cases
    case 1
    from 5(1)[OF 1(1)] 5(4,5) have "capturedSat R n (capturesOf x)" by simp
    with 5(2)[OF 1] 5(4) show ?thesis by simp
  next
    case 2 with 5(5) show ?thesis by simp
  qed
next
  case (6 a st)
  from 6(3) consider x where "x \<in> set (rmatch a st)" "progress st x" "st' \<in> set (rmatch (LazyStar a) x)"
    | "st' = st"
    by (subst (asm) rmatch.simps) (auto simp del: rmatch.simps split: if_splits)
  then show ?case
  proof cases
    case 1
    from 6(1)[OF 1(1)] 6(4,5) have "capturedSat R n (capturesOf x)" by simp
    with 6(2)[OF 1] 6(4) show ?thesis by simp
  next
    case 2 with 6(5) show ?thesis by simp
  qed
next
  case (7 m a st)
  from 7(2) obtain x where x: "x \<in> set (rmatch a st)" and s: "st' = setCapture m st x" by auto
  show ?case
  proof (cases "m = n")
    case True
    from rmatch_consumed[OF x] obtain w where w: "remaining st = w @ remaining x"
      by (auto simp: consumed_def)
    from True 7(3)
    have "\<forall>st x w. x \<in> set (rmatch a st) \<longrightarrow> remaining st = w @ remaining x \<longrightarrow> R w"
      by (simp del: split_paired_All split_paired_Ex)
    with x w have "R w" by blast
    with w s True show ?thesis
      by (simp add: capturedSat_def setCapture_def capturesOf_def)
  next
    case False
    with 7(1)[OF x] 7(3,4) have "capturedSat R n (capturesOf x)" by simp
    with False s show ?thesis
      by (simp add: capturedSat_def setCapture_def capturesOf_def)
  qed
next
  case (8 st)
  then show ?case by (auto split: if_splits)
next
  case (9 st)
  then show ?case by (auto split: if_splits)
next
  case (10 st)
  then show ?case by (auto split: if_splits)
qed

lemma regexExecFrom_capturedSat:
  "regexExecFrom r prev s = Some caps \<Longrightarrow> groupSat R n r \<and> setsGroup n r
     \<Longrightarrow> capturedSat R n caps"
proof (induction r prev s rule: regexExecFrom.induct)
  case (1 r prev s)
  show ?case
  proof (cases "rmatch r (prev, s, \<lambda>n. None)")
    case Nil
    with 1(2) obtain c cs where s: "s = c # cs" and e: "regexExecFrom r (Some c) cs = Some caps"
      by (auto simp: regexExecFrom.simps[of r prev s] split: list.splits)
    from 1(1)[OF Nil s e 1(3)] show ?thesis .
  next
    case (Cons st sts)
    with 1(2) have caps: "caps = capturesOf st"
      by (simp add: regexExecFrom.simps[of r prev s])
    from Cons have "st \<in> set (rmatch r (prev, s, \<lambda>n. None))" by simp
    from rmatch_capturedSat[OF this] 1(3) caps show ?thesis by blast
  qed
qed

lemma token_alphabet:
  "accepts ARTICLE_TOKEN c \<longleftrightarrow> isLetterIU c \<or> isWhitespace c \<or> c = 46 \<or> isDigit c \<or> c = 45"
  by (simp add: ARTICLE_TOKEN_def Plus_def Chr_def Space_def Digit_def) blast

lemma token_no_asterisk: "accepts ARTICLE_TOKEN c \<Longrightarrow> c \<noteq> 42"
  unfolding token_alphabet
  by (auto simp: isLetterIU_def isWhitespace_def isDigit_def isAsciiUpper_def isAsciiLower_def)

lemma token_has_digit:
  assumes "x \<in> set (rmatch ARTICLE_TOKEN st)" and "remaining st = w @ remaining x"
  shows "list_ex isDigit w"
proof -
  from assms(1) obtain pre rest where
    "x \<in> set (rmatch (Seq pre (Seq (Seq Digit (Star Digit)) rest)) st)"
    by (simp add: ARTICLE_TOKEN_def Plus_def del: rmatch.simps)
  then obtain y where y: "y \<in> set (rmatch pre st)"
    and 1: "x \<in> set (rmatch (Seq (Seq Digit (Star Digit)) rest) y)"
    by (rule rmatch_Seq_elim)
  from 1 obtain z where 2: "z \<in> set (rmatch (Seq Digit (Star Digit)) y)"
    and x: "x \<in> set (rmatch rest z)"
    by (rule rmatch_Seq_elim)
  from 2 obtain z0 where z0: "z0 \<in> set (rmatch Digit y)"
    and z: "z \<in> set (rmatch (Star Digit) z0)"
    by (rule rmatch_Seq_elim)
  from z0 obtain d where d: "isDigit d" "remaining y = d # remaining z0"
    by (cases "remaining y") (auto simp: Digit_def remaining_def split: if_splits)
  from rmatch_remaining[OF y] obtain w1 where w1: "remaining st = w1 @ remaining y" by blast
  from rmatch_remaining[OF z] obtain w2 where w2: "remaining z0 = w2 @ remaining z" by blast
  from rmatch_remaining[OF x] obtain w3 where w3: "remaining z = w3 @ remaining x" by blast
  from w1 d w2 w3 have "remaining st = (w1 @ d # w2 @ w3) @ remaining x" by simp
  with assms(2) have "w = w1 @ d # w2 @ w3" by simp
  with d show ?thesis by simp
qed

lemma token_shape:
  assumes "x \<in> set (rmatch ARTICLE_TOKEN st)" and "remaining st = w @ remaining x"
  shows "tokenShape w"
proof -
  from rmatch_consumed[OF assms(1)] obtain w' where "remaining st = w' @ remaining x"
    and "list_all (accepts ARTICLE_TOKEN) w'" by (auto simp: consumed_def)
  with assms(2) have "list_all (accepts ARTICLE_TOKEN) w" by simp
  then have "list_all (\<lambda>c. c \<noteq> 42) w"
    using token_no_asterisk by (auto simp: list_all_iff)
  with token_has_digit[OF assms] show ?thesis by (simp add: tokenShape_def)
qed

lemma groupSat_token [simp]: "groupSat R n ARTICLE_TOKEN"
  by (simp add: ARTICLE_TOKEN_def Plus_def Chr_def Space_def Digit_def)

lemma groupSat_keyword [simp]: "groupSat R n ARTICLE_KEYWORD"
  by (simp add: ARTICLE_KEYWORD_def ChrCI_def Chr_def)

lemma token_group_TITLE_THEN_ARTICLE:
  "groupSat tokenShape 2 TITLE_THEN_ARTICLE \<and> setsGroup 2 TITLE_THEN_ARTICLE"
  using token_shape
  by (simp add: TITLE_THEN_ARTICLE_def LazyPlus_def Plus_def Chr_def Space_def Dot_def
      del: rmatch.simps)

lemma token_group_ARTICLE_THEN_TITLE:
  "groupSat tokenShape 1 ARTICLE_THEN_TITLE \<and> setsGroup 1 ARTICLE_THEN_TITLE"
  using token_shape
  by (simp add: ARTICLE_THEN_TITLE_def LazyPlus_def Plus_def Chr_def ChrCI_def Space_def Dot_def
      del: rmatch.simps)

lemma token_group_TITLE_ARTICLE_NO_COMMA:
  "groupSat tokenShape 2 TITLE_ARTICLE_NO_COMMA \<and> setsGroup 2 TITLE_ARTICLE_NO_COMMA"
  using token_shape
  by (simp add: TITLE_ARTICLE_NO_COMMA_def LazyPlus_def Plus_def Chr_def Space_def Dot_def
      del: rmatch.simps)

text \<open>The token that a pattern captures has a digit and no asterisk.\<close>

lemma matchPatterns_token_shape:
  assumes "matchPatterns c = Some (t, tok)"
  shows "tokenShape tok"
proof -
  have "capturedSat tokenShape n caps \<Longrightarrow> tokenShape (group caps n)" for n caps
    by (auto simp: capturedSat_def group_def split: option.splits)
  with assms regexExecFrom_capturedSat[OF _ token_group_TITLE_THEN_ARTICLE]
    regexExecFrom_capturedSat[OF _ token_group_ARTICLE_THEN_TITLE]
    regexExecFrom_capturedSat[OF _ token_group_TITLE_ARTICLE_NO_COMMA]
  show ?thesis
    by (auto simp: matchPatterns_def regexExec_def split: option.splits)
qed

section \<open>The article number normalizer\<close>

text \<open>
  C1 (amended).  For every input that starts with a class letter L, R, D or A in either
  case, followed by nothing, a period, an asterisk or a period and an asterisk, then by
  any whitespace, then by a digit, \<open>normalizeArticleNum\<close> drops the separator and the
  whitespace and keeps the letter directly before the digits.  The letter is kept as it
  was written: it is not upper-cased.
\<close>

theorem normalizeArticleNum_prefix:
  assumes c: "isClassLetter c"
    and sep: "sep = [] \<or> sep = [46] \<or> sep = [42] \<or> sep = [46, 42]"
    and ws: "list_all isWhitespace ws"
    and d: "isDigit d"
  shows "normalizeArticleNum (c # sep @ ws @ d # r) = c # d # removeWhitespace r"
proof -
  note nw = isClassLetter_not_whitespace[OF c] isDigit_not_whitespace[OF d]
  have d46: "d \<noteq> 46" and d42: "d \<noteq> 42" using d by (auto simp: isDigit_def)
  have dw: "dropWhile isWhitespace (ws @ d # r) = d # r"
    using ws nw by (simp add: dropWhile_all_whitespace)
  have rw: "removeWhitespace (c # ws @ d # r) = c # d # removeWhitespace r"
    using ws nw by (simp add: removeWhitespace_Cons removeWhitespace_all_whitespace)
  have fst: "ws \<noteq> [] \<Longrightarrow> hd ws \<noteq> 46 \<and> hd ws \<noteq> 42"
    using ws separator_not_whitespace by (cases ws) auto
  consider "sep = []" | "sep = [46]" | "sep = [42]" | "sep = [46, 42]" using sep by blast
  then show ?thesis
  proof cases
    case 1
    have "stripClassSeparator 42 (stripClassSeparator 46 (c # ws @ d # r)) = c # ws @ d # r"
      using fst d46 d42 by (cases ws) (auto simp: stripClassSeparator_def)
    with 1 rw show ?thesis by (simp add: normalizeArticleNum_eq)
  next
    case 2
    have "stripClassSeparator 46 (c # 46 # ws @ d # r) = c # d # r"
      using c dw by (simp add: stripClassSeparator_def)
    moreover have "stripClassSeparator 42 (c # d # r) = c # d # r"
      using d42 by (simp add: stripClassSeparator_def)
    ultimately show ?thesis using 2 nw
      by (simp add: normalizeArticleNum_eq removeWhitespace_Cons)
  next
    case 3
    have "stripClassSeparator 46 (c # 42 # ws @ d # r) = c # 42 # ws @ d # r"
      by (simp add: stripClassSeparator_def)
    moreover have "stripClassSeparator 42 (c # 42 # ws @ d # r) = c # d # r"
      using c dw by (simp add: stripClassSeparator_def)
    ultimately show ?thesis using 3 nw
      by (simp add: normalizeArticleNum_eq removeWhitespace_Cons)
  next
    case 4
    have "stripClassSeparator 46 (c # 46 # 42 # ws @ d # r) = c # 42 # ws @ d # r"
      using c separator_not_whitespace by (simp add: stripClassSeparator_def)
    moreover have "stripClassSeparator 42 (c # 42 # ws @ d # r) = c # d # r"
      using c dw by (simp add: stripClassSeparator_def)
    ultimately show ?thesis using 4 nw
      by (simp add: normalizeArticleNum_eq removeWhitespace_Cons)
  qed
qed

theorem normalizeArticleNum_prefix_witness:
  "normalizeArticleNum (cps ''r.* 2321-1'') = cps ''r2321-1''"
  using normalizeArticleNum_prefix[of 114 "[46, 42]" "[32]" 50 "cps ''321-1''"]
  by (simp add: isClassLetter_def cps_def isWhitespace_def isDigit_def removeWhitespace_def)

text \<open>The example of the claim as it was stated: the lower-case letter is not turned
  into \<open>L\<close>.\<close>

theorem normalizeArticleNum_uppercase_counterexample:
  "normalizeArticleNum (cps ''l. 323-1'') \<noteq> cps ''L323-1''"
  by (simp add: norm_eval)

text \<open>
  C2 (amended).  \<open>normalizeArticleNum (normalizeArticleNum s) = normalizeArticleNum s\<close>
  holds exactly when \<open>normalizeArticleNum s\<close> does not start with a class letter directly
  followed by a period or an asterisk: one pass strips one period and one asterisk after
  the letter, and only at the very start of the string.
\<close>

theorem normalizeArticleNum_idempotent_iff:
  "normalizeArticleNum (normalizeArticleNum s) = normalizeArticleNum s
     \<longleftrightarrow> \<not> startsWithClassSeparator (normalizeArticleNum s)"
proof (cases "startsWithClassSeparator (normalizeArticleNum s)")
  case True
  let ?n = "normalizeArticleNum s"
  have "length (normalizeArticleNum ?n)
          \<le> length (stripClassSeparator 42 (stripClassSeparator 46 ?n))"
    by (simp add: normalizeArticleNum_eq[of ?n] removeWhitespace_length)
  also have "\<dots> < length ?n" using True by (rule stripClassSeparator_shorter)
  finally have "normalizeArticleNum ?n \<noteq> ?n" by auto
  with True show ?thesis by simp
next
  case False
  let ?n = "normalizeArticleNum s"
  from False have "stripClassSeparator 46 ?n = ?n" "stripClassSeparator 42 ?n = ?n"
    using stripClassSeparator_fixed by blast+
  then have "normalizeArticleNum ?n = removeWhitespace ?n"
    by (simp add: normalizeArticleNum_eq[of ?n])
  with False show ?thesis by (simp add: normalizeArticleNum_no_whitespace)
qed

theorem normalizeArticleNum_idempotent_iff_witness:
  "normalizeArticleNum (normalizeArticleNum (cps ''L. 323-1''))
     = normalizeArticleNum (cps ''L. 323-1'')"
  using normalizeArticleNum_idempotent_iff[of "cps ''L. 323-1''"]
  by (simp add: norm_eval startsWithClassSeparator_def)

theorem normalizeArticleNum_idempotent_counterexample:
  "normalizeArticleNum (normalizeArticleNum (cps ''L..1'')) \<noteq> normalizeArticleNum (cps ''L..1'')"
  by (simp add: norm_eval)

section \<open>The citation parser\<close>

lemma removePeriods_stripClassSeparator:
  "removePeriods (removeWhitespace (stripClassSeparator 46 s)) = removePeriods (removeWhitespace s)"
  by (auto simp: stripClassSeparator_def removePeriods_def removeWhitespace_Cons
      separator_not_whitespace split: list.splits)

lemma stripClassSeparator_no_asterisk:
  "list_all (\<lambda>c. c \<noteq> 42) s \<Longrightarrow> stripClassSeparator 42 s = s"
  by (auto simp: stripClassSeparator_def split: list.splits)

lemma stripClassSeparator_subset: "set (stripClassSeparator sep s) \<subseteq> set s"
proof (cases s)
  case Nil
  then show ?thesis by (simp add: stripClassSeparator_def)
next
  case (Cons c s')
  show ?thesis
  proof (cases s')
    case Nil
    with Cons show ?thesis by (simp add: stripClassSeparator_def)
  next
    case (Cons d rest)
    have "set (dropWhile isWhitespace rest) \<subseteq> set rest"
      by (auto dest: set_dropWhileD)
    with Cons \<open>s = c # s'\<close> show ?thesis
      by (auto simp: stripClassSeparator_def)
  qed
qed

lemma stripClassSeparator_keeps_no_asterisk:
  "list_all (\<lambda>c. c \<noteq> 42) s \<Longrightarrow> list_all (\<lambda>c. c \<noteq> 42) (stripClassSeparator 46 s)"
  using stripClassSeparator_subset[of 46 s] by (auto simp: list_all_iff)

lemma normalizeArticleNum_then_removePeriods:
  assumes "list_all (\<lambda>c. c \<noteq> 42) tok"
  shows "removePeriods (normalizeArticleNum tok) = removePeriods (removeWhitespace tok)"
  using stripClassSeparator_no_asterisk[OF stripClassSeparator_keeps_no_asterisk[OF assms]]
  by (simp add: normalizeArticleNum_eq removePeriods_stripClassSeparator)

lemma matchPatterns_empty: "matchPatterns [] = None"
  by (simp add: matchPatterns_def regexExec_def regexExecFrom.simps rx_defs st_defs)

lemma normalizeInput_empty: "normalizeInput [] = []"
  by (simp add: normalizeInput_def collapseWhitespace_def trim_def)

text \<open>
  C3.  \<open>parseCitation\<close> on \<^verbatim>\<open>Code de la d\<close>U+00E9\<^verbatim>\<open>fense, art. L. 2321-1\<close> gives a valid
  statute citation with that title and the article token \<^verbatim>\<open>L2321-1\<close>, and it is the
  first pattern, the title followed by a comma and the article, that matches: its two
  groups are the title and \<^verbatim>\<open>L. 2321-1\<close>.
\<close>

theorem parseCitation_scenario1:
  "parseCitation U (cps ''Code de la d'' @ [233] @ cps ''fense, art. L. 2321-1'') =
     \<lparr>valid = True, type = Statute,
      title = Some (cps ''Code de la d'' @ [233] @ cps ''fense''),
      year = None, section' = Some (cps ''L2321-1''), error = None\<rparr>
   \<and> map_option (\<lambda>m. (group m 1, group m 2))
        (regexExec TITLE_THEN_ARTICLE
           (normalizeInput (trim (cps ''Code de la d'' @ [233] @ cps ''fense, art. L. 2321-1''))))
      = Some (cps ''Code de la d'' @ [233] @ cps ''fense'', cps ''L. 2321-1'')"
  by (simp add: parse_eval)

lemma normalizeArticleRef_nonempty:
  assumes "tokenShape tok"
  shows "normalizeArticleRef U tok \<noteq> []"
proof -
  from assms obtain d where d: "d \<in> set tok" "isDigit d"
    by (auto simp: tokenShape_def list_ex_iff)
  then have "d \<in> set (removePeriods (removeWhitespace tok))"
    by (auto simp: removePeriods_def removeWhitespace_def isDigit_def isWhitespace_def)
  moreover from d have "d < 128" "asciiUpper d = d"
    by (auto simp: isDigit_def asciiUpper_def isAsciiLower_def)
  ultimately have "d \<in> set (normalizeArticleRef U tok)"
    by (force simp: normalizeArticleRef_def toUpperCase_def)
  then show ?thesis by auto
qed

lemma parseCitation_valid_matches:
  assumes "valid (parseCitation U c)"
  shows "\<exists>t tok. matchPatterns (normalizeInput (trim c)) = Some (t, tok)
           \<and> section' (parseCitation U c) = Some (normalizeArticleRef U tok)"
proof -
  from assms obtain t tok where m: "matchPatterns (normalizeInput (trim c)) = Some (t, tok)"
    by (auto simp: parseCitation_def tryParsePatterns_def Let_def
        split: if_splits option.splits)
  then have "trim c \<noteq> []"
    using matchPatterns_empty normalizeInput_empty by force
  with m have "section' (parseCitation U c) = Some (normalizeArticleRef U tok)"
    by (simp add: parseCitation_def tryParsePatterns_def Let_def)
  with m show ?thesis by blast
qed

text \<open>A citation that parses always carries a non-empty article token: the token grammar
  requires a digit.\<close>

lemma parseCitation_valid_has_token:
  assumes "valid (parseCitation U c)"
  shows "\<exists>s. section' (parseCitation U c) = Some s \<and> s \<noteq> []"
  using parseCitation_valid_matches[OF assms] matchPatterns_token_shape
    normalizeArticleRef_nonempty by fastforce

text \<open>
  C4 (amended).  For every citation on which \<open>parseCitation\<close> succeeds, the article token
  it returns is \<open>normalizeArticleRef\<close> of the matched token substring, and that equals
  \<open>normalizeArticleNum\<close> of the substring with every remaining period removed and the
  result upper-cased.
\<close>

theorem parseCitation_token:
  assumes "valid (parseCitation U c)"
  shows "\<exists>t tok. matchPatterns (normalizeInput (trim c)) = Some (t, tok)
           \<and> section' (parseCitation U c) = Some (normalizeArticleRef U tok)
           \<and> normalizeArticleRef U tok
               = toUpperCase U (removePeriods (normalizeArticleNum tok))"
proof -
  from parseCitation_valid_matches[OF assms] obtain t tok
    where m: "matchPatterns (normalizeInput (trim c)) = Some (t, tok)"
      and s: "section' (parseCitation U c) = Some (normalizeArticleRef U tok)" by blast
  from matchPatterns_token_shape[OF m] have "list_all (\<lambda>c. c \<noteq> 42) tok"
    by (simp add: tokenShape_def)
  then have "normalizeArticleRef U tok = toUpperCase U (removePeriods (normalizeArticleNum tok))"
    by (simp add: normalizeArticleRef_def normalizeArticleNum_then_removePeriods)
  with m s show ?thesis by blast
qed

theorem parseCitation_token_witness:
  "section' (parseCitation plainUnicode (cps ''Code, art. b. 12'')) = Some (cps ''B12'')
   \<and> toUpperCase plainUnicode (removePeriods (normalizeArticleNum (cps ''b. 12''))) = cps ''B12''"
proof -
  have m: "matchPatterns (normalizeInput (trim (cps ''Code, art. b. 12'')))
             = Some (cps ''Code'', cps ''b. 12'')"
    by (simp add: parse_eval)
  have v: "valid (parseCitation plainUnicode (cps ''Code, art. b. 12''))"
    by (simp add: parse_eval)
  have r: "normalizeArticleRef plainUnicode (cps ''b. 12'') = cps ''B12''"
    by (simp add: normalizeArticleRef_def toUpperCase_def removePeriods_def removeWhitespace_def
        cps_def cls_defs)
  from parseCitation_token[OF v] m r show ?thesis by auto
qed

text \<open>The claim as it was stated fails on the token \<^verbatim>\<open>b. 12\<close>: the parser returns
  \<^verbatim>\<open>B12\<close>, \<open>normalizeArticleNum\<close> returns \<^verbatim>\<open>b.12\<close>.\<close>

theorem parseCitation_token_counterexample:
  "matchPatterns (normalizeInput (trim (cps ''Code, art. b. 12'')))
     = Some (cps ''Code'', cps ''b. 12'')
   \<and> section' (parseCitation plainUnicode (cps ''Code, art. b. 12''))
       \<noteq> Some (normalizeArticleNum (cps ''b. 12''))"
  by (simp add: parse_eval plainUnicode_def normalizeArticleNum_eq stripClassSeparator_def
      isClassLetter_def)

section \<open>The citation validator\<close>

lemma scoreCandidate_zero_iff:
  "scoreCandidate U target s x = 0 \<longleftrightarrow>
     s = 0 \<and>
     (x = [] \<or> normalizeLookup U x = [] \<or>
      (normalizeLookup U x \<noteq> target \<and> \<not> includesStr (normalizeLookup U x) target \<and>
       \<not> includesStr target (normalizeLookup U x)))"
  by (auto simp: scoreCandidate_def Let_def max_def)

text \<open>A document scores zero exactly when each of its title, short name and id is empty,
  normalizes to the empty string, or is neither equal to the normalized title of the
  citation, nor contains it, nor is contained in it.\<close>

lemma docScore_zero_iff:
  "docScore U target d = 0 \<longleftrightarrow>
     list_all (\<lambda>x. x = [] \<or> normalizeLookup U x = [] \<or>
                  (normalizeLookup U x \<noteq> target \<and>
                   \<not> includesStr (normalizeLookup U x) target \<and>
                   \<not> includesStr target (normalizeLookup U x)))
       [doc_title d, (case short_name d of Some n \<Rightarrow> n | None \<Rightarrow> []), doc_id d]"
  unfolding docScore_def foldl.simps scoreCandidate_zero_iff by simp

lemma foldl_bestStep_nonpositive:
  "\<forall>d \<in> set docs. docScore U target d = 0 \<Longrightarrow> snd b \<le> 0
     \<Longrightarrow> snd (foldl (bestStep U target) b docs) \<le> 0"
proof (induction docs arbitrary: b)
  case Nil
  then show ?case by simp
next
  case (Cons d docs)
  from Cons.prems have "snd (bestStep U target b d) \<le> 0"
    by (simp add: bestStep_def Let_def)
  with Cons show ?case by simp
qed

lemma findBestDoc_all_zero:
  "\<forall>d \<in> set docs. docScore U target d = 0 \<Longrightarrow> findBestDoc U target docs = None"
  using foldl_bestStep_nonpositive[of docs U target "(None, - 1)"]
  by (simp add: findBestDoc_def Let_def)

lemma parseCitation_imaginaire:
  "parseCitation plainUnicode (cps ''Code imaginaire, art. 1'') =
     \<lparr>valid = True, type = Statute, title = Some (cps ''Code imaginaire''),
      year = None, section' = Some (cps ''1''), error = None\<rparr>"
  by (simp add: parse_eval plainUnicode_def)

lemma docScore_imaginaire:
  "docScore plainUnicode (normalizeLookup plainUnicode (cps ''Code imaginaire''))
     \<lparr>doc_id = cps ''code-penal'', doc_title = cps ''Code penal'', short_name = None,
      doc_status = cps ''in_force''\<rparr> = 0"
  by (simp add: validate_eval cps_def cls_defs trim_def)

text \<open>
  C5.  For every database and every citation that parses with a non-empty title: when
  every stored document scores zero against the normalized title, \<open>validateCitation\<close>
  reports that neither the document nor the provision exists, with the warning that the
  document was not found in the database.
\<close>

theorem validateCitation_no_document:
  assumes "valid (parseCitation U c)"
    and "title (parseCitation U c) = Some t"
    and "t \<noteq> []"
    and "\<forall>d \<in> set (legal_documents db). docScore U (normalizeLookup U t) d = 0"
  shows "validateCitation U db c =
           \<lparr>citation = parseCitation U c, document_exists = False, provision_exists = False,
            document_title = None, status = None,
            warnings = [cps ''Document \"'' @ t @ cps ''\" not found in database'']\<rparr>"
  using assms findBestDoc_all_zero[of "legal_documents db" U "normalizeLookup U t"]
  by (simp add: validateCitation_def validateParsed_def notFoundResult_def)

theorem validateCitation_no_document_witness:
  "validateCitation plainUnicode
     \<lparr>legal_documents =
        [\<lparr>doc_id = cps ''code-penal'', doc_title = cps ''Code penal'', short_name = None,
          doc_status = cps ''in_force''\<rparr>],
      legal_provisions =
        [\<lparr>document_id = cps ''code-penal'', provision_ref = cps ''art323-1'',
          prov_section = cps ''323-1''\<rparr>]\<rparr>
     (cps ''Code imaginaire, art. 1'') =
   \<lparr>citation =
      \<lparr>valid = True, type = Statute, title = Some (cps ''Code imaginaire''),
       year = None, section' = Some (cps ''1''), error = None\<rparr>,
    document_exists = False, provision_exists = False, document_title = None, status = None,
    warnings = [cps ''Document \"Code imaginaire\" not found in database'']\<rparr>"
  using validateCitation_no_document[of plainUnicode "cps ''Code imaginaire, art. 1''"
      "cps ''Code imaginaire''"
      "\<lparr>legal_documents =
          [\<lparr>doc_id = cps ''code-penal'', doc_title = cps ''Code penal'', short_name = None,
            doc_status = cps ''in_force''\<rparr>],
        legal_provisions =
          [\<lparr>document_id = cps ''code-penal'', provision_ref = cps ''art323-1'',
            prov_section = cps ''323-1''\<rparr>]\<rparr>"]
  by (simp add: parseCitation_imaginaire docScore_imaginaire) (simp add: cps_def)

text \<open>The title of a citation of a document alone resolves to the stored document.\<close>

lemma findBestDoc_loi:
  "findBestDoc plainUnicode
     (normalizeLookup plainUnicode (cps ''Loi n'' @ [176] @ cps '' 78-17 du 6 janvier 1978''))
     [\<lparr>doc_id = cps ''loi-78-17'',
       doc_title = cps ''Loi n'' @ [176] @ cps '' 78-17 du 6 janvier 1978'',
       short_name = None, doc_status = cps ''in_force''\<rparr>]
   = Some \<lparr>doc_id = cps ''loi-78-17'',
           doc_title = cps ''Loi n'' @ [176] @ cps '' 78-17 du 6 janvier 1978'',
           short_name = None, doc_status = cps ''in_force''\<rparr>"
  by (simp add: validate_eval cps_def cls_defs trim_def)

text \<open>The branch of the validator for a parsed citation without an article token: the
  provision counts as existing.  By \<open>parseCitation_valid_has_token\<close> no citation that
  \<open>parseCitation\<close> accepts reaches it.\<close>

lemma validateParsed_no_token:
  assumes "valid parsed"
    and "title parsed = Some t"
    and "t \<noteq> []"
    and "findBestDoc U (normalizeLookup U t) (legal_documents db) = Some doc"
    and "section' parsed = None \<or> section' parsed = Some []"
  shows "validateParsed U db parsed =
           \<lparr>citation = parsed, document_exists = True, provision_exists = True,
            document_title = Some (doc_title doc), status = Some (doc_status doc),
            warnings = (if doc_status doc = cps ''repealed''
                        then [cps ''This statute has been repealed''] else [])\<rparr>"
  using assms by (auto simp: validateParsed_def Let_def)


text \<open>
  C10.  \<open>parseCitation\<close> on \<^verbatim>\<open>,, art. 1\<close> is valid with an empty title; and for every
  database and every citation whose parse is valid with an empty title,
  \<open>validateCitation\<close> reports that neither the document nor the provision exists, with
  the warning that the citation does not include a recognizable statute title.
\<close>

theorem validateCitation_empty_title:
  "(valid (parseCitation U (cps '',, art. 1''))
      \<and> title (parseCitation U (cps '',, art. 1'')) = Some [])
   \<and> (\<forall>db c. valid (parseCitation U c) \<and> title (parseCitation U c) = Some [] \<longrightarrow>
         validateCitation U db c =
           \<lparr>citation = parseCitation U c, document_exists = False, provision_exists = False,
            document_title = None, status = None,
            warnings = [cps ''Citation does not include a recognizable statute title'']\<rparr>)"
proof (intro conjI allI impI)
  show "valid (parseCitation U (cps '',, art. 1''))" by (simp add: parse_eval)
  show "title (parseCitation U (cps '',, art. 1'')) = Some []" by (simp add: parse_eval)
next
  fix db c
  assume "valid (parseCitation U c) \<and> title (parseCitation U c) = Some []"
  then show "validateCitation U db c =
           \<lparr>citation = parseCitation U c, document_exists = False, provision_exists = False,
            document_title = None, status = None,
            warnings = [cps ''Citation does not include a recognizable statute title'']\<rparr>"
    by (simp add: validateCitation_def validateParsed_def notFoundResult_def)
qed

theorem validateCitation_empty_title_witness:
  "validateCitation plainUnicode \<lparr>legal_documents = [], legal_provisions = []\<rparr>
     (cps '',, art. 1'') =
   \<lparr>citation = parseCitation plainUnicode (cps '',, art. 1''),
    document_exists = False, provision_exists = False, document_title = None, status = None,
    warnings = [cps ''Citation does not include a recognizable statute title'']\<rparr>"
  using validateCitation_empty_title[of plainUnicode] by blast

section \<open>Article titles and the formatter\<close>

lemma tokenBody_unchanged:
  assumes "list_all isTokenBodyChar t"
  shows "removeWhitespace t = t" "removePeriods t = t" "toUpperCase U t = t"
    "list_all (\<lambda>x. \<not> isLineTerminator x) t"
  using assms
  by (induction t)
     (auto simp: removeWhitespace_def removePeriods_def toUpperCase_def isTokenBodyChar_def
        cls_defs)

lemma tokenBody_no_separator:
  assumes "list_all isTokenBodyChar t"
  shows "stripClassSeparator 46 t = t" "stripClassSeparator 42 t = t"
  using assms
  by (auto simp: stripClassSeparator_def isTokenBodyChar_def cls_defs split: list.splits)

lemma classLetter_upper: "isClassLetter c \<Longrightarrow> isAsciiUpper c \<Longrightarrow> c \<in> {76, 82, 68, 65}"
  by (auto simp: isClassLetter_def cps_def isAsciiUpper_def)

text \<open>
  C7 (amended).  For every token in its stored upper-case form (digits, hyphens and
  upper-case ASCII letters, where a leading letter directly followed by a digit is one of
  L, R, D, A), \<open>articleTitle\<close> is \<^verbatim>\<open>Article \<close> followed by \<open>buildArticleRef\<close>.
\<close>

theorem articleTitle_buildArticleRef:
  assumes "upperToken t"
  shows "articleTitle U t = cps ''Article '' @ buildArticleRef U t"
proof -
  from assms have body: "list_all isTokenBodyChar t" by (simp add: upperToken_def)
  have n: "normalizeArticleNum t = t"
    by (simp add: normalizeArticleNum_eq tokenBody_no_separator[OF body]
        tokenBody_unchanged[OF body])
  have u: "toUpperCase U (removePeriods (removeWhitespace t)) = t"
    by (simp add: tokenBody_unchanged[OF body])
  show ?thesis
  proof (cases "prefixMatch t")
    case True
    then obtain c d r where t: "t = c # d # r" and c: "isClassLetter c" and d: "isDigit d"
      by (auto simp: prefixMatch_def split: list.splits)
    from body t have cu: "isAsciiUpper c"
      using c by (auto simp: isTokenBodyChar_def isClassLetter_def cps_def cls_defs)
    from body t have lt: "list_all (\<lambda>x. \<not> isLineTerminator x) r"
      using tokenBody_unchanged(4)[OF body] by simp
    have lm: "letterMatch t = Some (c, d # r)"
      using t cu d lt by (simp add: letterMatch_def)
    have up: "toUpperCase U [c] = [c]"
      using cu by (simp add: toUpperCase_def cls_defs)
    have pn: "prefixNames [c] = Some [c, 46]"
      using classLetter_upper[OF c cu] by (auto simp: prefixNames_def cps_def)
    show ?thesis
      using True n u lm up pn unfolding t
      by (simp add: articleTitle_def buildArticleRef_def Let_def cps_def)
  next
    case False
    have "letterMatch t = None"
    proof (cases t)
      case Nil
      then show ?thesis by (simp add: letterMatch_def)
    next
      case (Cons c t')
      show ?thesis
      proof (cases t')
        case Nil
        with Cons show ?thesis by (simp add: letterMatch_def)
      next
        case (Cons d r)
        with \<open>t = c # t'\<close> have t: "t = c # d # r" by simp
        from False t have "\<not> (isClassLetter c \<and> isDigit d)" by (simp add: prefixMatch_def)
        moreover from assms t have "\<not> (isAsciiUpper c \<and> isDigit d) \<or> isClassLetter c"
          by (simp add: upperToken_def)
        ultimately have "\<not> (isAsciiUpper c \<and> isDigit d)" by blast
        with t show ?thesis by (auto simp: letterMatch_def)
      qed
    qed
    with False show ?thesis
      by (simp add: articleTitle_def buildArticleRef_def n u Let_def)
  qed
qed

theorem articleTitle_buildArticleRef_witness:
  "articleTitle plainUnicode (cps ''L2321-1'') = cps ''Article L. 2321-1''
   \<and> buildArticleRef plainUnicode (cps ''L2321-1'') = cps ''L. 2321-1''"
proof -
  have b: "buildArticleRef plainUnicode (cps ''L2321-1'') = cps ''L. 2321-1''"
    by (simp add: buildArticleRef_def letterMatch_def toUpperCase_def removePeriods_def
        removeWhitespace_def cps_def cls_defs)
  have "upperToken (cps ''L2321-1'')"
    by (simp add: upperToken_def isTokenBodyChar_def isClassLetter_def cps_def cls_defs)
  from articleTitle_buildArticleRef[OF this, of plainUnicode] b show ?thesis
    by (simp add: cps_def)
qed

text \<open>The claim as it was stated fails on \<^verbatim>\<open>L12-a\<close>: the title keeps the lower-case
  letter, the formatter upper-cases it.\<close>

theorem articleTitle_buildArticleRef_counterexample:
  "articleTitle plainUnicode (cps ''L12-a'')
     \<noteq> cps ''Article '' @ buildArticleRef plainUnicode (cps ''L12-a'')"
  by (simp add: articleTitle_def buildArticleRef_def letterMatch_def toUpperCase_def
      removePeriods_def prefixMatch_def prefixNames_def norm_eval isAsciiUpper_def
      isAsciiLower_def asciiUpper_def isLineTerminator_def plainUnicode_def)

section \<open>The full-text query builder\<close>

lemma in_dropWhile: "c \<in> set s \<Longrightarrow> \<not> P c \<Longrightarrow> c \<in> set (dropWhile P s)"
  by (induction s) auto

lemma in_trim: "c \<in> set s \<Longrightarrow> \<not> isWhitespace c \<Longrightarrow> c \<in> set (trim s)"
  by (simp add: trim_def in_dropWhile)

lemma in_collapseRuns: "c \<in> set s \<Longrightarrow> \<not> P c \<Longrightarrow> c \<in> set (collapseRuns P s)"
proof (induction P s rule: collapseRuns.induct)
  case (1 P)
  then show ?case by simp
next
  case (2 P a cs)
  show ?case
  proof (cases "P a")
    case True
    with 2 have "c \<in> set cs" by auto
    then have "c \<in> set (dropWhile P cs)" using 2(4) by (rule in_dropWhile)
    with 2 True show ?thesis by simp
  next
    case False
    with 2 show ?thesis by auto
  qed
qed

lemma in_sanitizeFtsInput:
  "c \<in> set s \<Longrightarrow> \<not> isWhitespace c \<Longrightarrow> \<not> isFts5Special c \<Longrightarrow> c \<in> set (sanitizeFtsInput s)"
proof -
  assume c: "c \<in> set s" and w: "\<not> isWhitespace c" and f: "\<not> isFts5Special c"
  from c f have "c \<in> set (map (\<lambda>c. if isFts5Special c then 32 else c) s)"
    by (force simp: image_iff)
  then show ?thesis using w
    by (simp add: sanitizeFtsInput_def collapseWhitespace_def in_trim in_collapseRuns
        del: set_map)
qed

lemma hasWord_subset: "hasWord w prev s \<Longrightarrow> set w \<subseteq> set s"
proof (induction s arbitrary: prev)
  case Nil
  then show ?case by simp
next
  case (Cons c cs)
  from Cons.prems consider "startsWith (c # cs) w" | "hasWord w (Some c) cs" by auto
  then show ?case
  proof cases
    case 1
    then have "w = take (length w) (c # cs)" by (simp add: startsWith_def)
    then have "set w \<subseteq> set (c # cs)" by (metis set_take_subset)
    then show ?thesis .
  next
    case 2
    with Cons.IH show ?thesis by auto
  qed
qed

lemma explicit_has_plain_char:
  assumes "EXPLICIT_FTS_SYNTAX s"
  shows "\<exists>c \<in> set s. \<not> isWhitespace c \<and> \<not> isFts5Special c"
proof -
  have ok: "\<not> isWhitespace c \<and> \<not> isFts5Special c" if "c \<in> {34, 65, 79, 78, 42}" for c
    using that by (auto simp: isWhitespace_def isFts5Special_def cps_def)
  from assms consider "34 \<in> set s" | "hasWord (cps ''AND'') None s"
    | "hasWord (cps ''OR'') None s" | "hasWord (cps ''NOT'') None s"
    | "s \<noteq> [] \<and> last s = 42"
    by (auto simp: EXPLICIT_FTS_SYNTAX_def)
  then have "\<exists>c \<in> {34, 65, 79, 78, 42}. c \<in> set s"
  proof cases
    case 1 then show ?thesis by auto
  next
    case 2 from hasWord_subset[OF this] show ?thesis by (auto simp: cps_def)
  next
    case 3 from hasWord_subset[OF this] show ?thesis by (auto simp: cps_def)
  next
    case 4 from hasWord_subset[OF this] show ?thesis by (auto simp: cps_def)
  next
    case 5
    then have "42 \<in> set s" by (metis last_in_set)
    then show ?thesis by auto
  qed
  then show ?thesis using ok by blast
qed

lemma explicit_sanitized_nonempty:
  "EXPLICIT_FTS_SYNTAX s \<Longrightarrow> sanitizeFtsInput s \<noteq> []"
  using explicit_has_plain_char[of s] in_sanitizeFtsInput[of _ s] by fastforce

lemma joinWith_nonempty: "x \<noteq> [] \<Longrightarrow> joinWith sep (x # xs) \<noteq> []"
  by (cases xs) simp_all

text \<open>
  C8 (amended).  For every input whose trimmed form contains a double quote, a whole-word
  AND, OR or NOT, or ends with an asterisk, \<open>buildFtsQueryVariants\<close> returns as its sole
  variant \<open>sanitizeFtsInput\<close> of the trimmed input: every character of
  \<^verbatim>\<open>( ) { } ^ + : .\<close> replaced by a space, every run of whitespace collapsed to one
  space, and the result trimmed; there is no fallback.  The query of scenario 6 comes back
  unchanged.
\<close>

theorem buildFtsQueryVariants_explicit:
  "(EXPLICIT_FTS_SYNTAX (trim q) \<longrightarrow>
      buildFtsQueryVariants q = \<lparr>primary = sanitizeFtsInput (trim q), fallback = None\<rparr>)
   \<and> buildFtsQueryVariants
        (cps ''\"traitement automatis'' @ [233] @ cps ''\" AND \"donn'' @ [233]
           @ cps ''es personnelles\"'')
      = \<lparr>primary = cps ''\"traitement automatis'' @ [233] @ cps ''\" AND \"donn'' @ [233]
                      @ cps ''es personnelles\"'',
         fallback = None\<rparr>"
proof
  show "EXPLICIT_FTS_SYNTAX (trim q) \<longrightarrow>
      buildFtsQueryVariants q = \<lparr>primary = sanitizeFtsInput (trim q), fallback = None\<rparr>"
    by (simp add: buildFtsQueryVariants_def Let_def explicit_sanitized_nonempty)
  show "buildFtsQueryVariants
        (cps ''\"traitement automatis'' @ [233] @ cps ''\" AND \"donn'' @ [233]
           @ cps ''es personnelles\"'')
      = \<lparr>primary = cps ''\"traitement automatis'' @ [233] @ cps ''\" AND \"donn'' @ [233]
                      @ cps ''es personnelles\"'',
         fallback = None\<rparr>"
    by (simp add: fts_eval isWhitespace_def)
qed

theorem buildFtsQueryVariants_explicit_witness:
  "buildFtsQueryVariants (cps ''\"a.b\" AND c'')
     = \<lparr>primary = cps ''\"a b\" AND c'', fallback = None\<rparr>"
proof -
  have e: "EXPLICIT_FTS_SYNTAX (trim (cps ''\"a.b\" AND c''))"
    by (simp add: fts_eval isWhitespace_def)
  have s: "sanitizeFtsInput (trim (cps ''\"a.b\" AND c'')) = cps ''\"a b\" AND c''"
    by (simp add: fts_eval isWhitespace_def)
  from buildFtsQueryVariants_explicit[of "cps ''\"a.b\" AND c''", THEN conjunct1] e s
  show ?thesis by simp
qed

text \<open>The claim as it was stated fails on a quoted phrase with two spaces in it: no
  character of the input is dangerous, and yet the primary variant is not the input.\<close>

theorem buildFtsQueryVariants_explicit_counterexample:
  "EXPLICIT_FTS_SYNTAX (trim (cps ''\"a  b\"'')) \<and>
   primary (buildFtsQueryVariants (cps ''\"a  b\"'')) \<noteq>
     filter (\<lambda>c. \<not> isFts5Special c) (trim (cps ''\"a  b\"''))"
  by (simp add: fts_eval isWhitespace_def)

text \<open>
  C9 (amended).  For every string that has a character other than whitespace, the primary
  variant of \<open>buildFtsQueryVariants\<close> is not the empty string.
\<close>

theorem buildFtsQueryVariants_primary_nonempty:
  assumes "trim s \<noteq> []"
  shows "primary (buildFtsQueryVariants s) \<noteq> []"
proof (cases "EXPLICIT_FTS_SYNTAX (trim s)")
  case True
  then show ?thesis
    by (simp add: buildFtsQueryVariants_def Let_def explicit_sanitized_nonempty)
next
  case False
  let ?tokens = "map (filter isTokenChar)
                   (filter (\<lambda>t. length t > 0) (splitWhitespace (sanitizeFtsInput (trim s))))"
  show ?thesis
  proof (cases "?tokens")
    case Nil
    with False assms show ?thesis by (simp add: buildFtsQueryVariants_def Let_def)
  next
    case (Cons t ts)
    have "joinWith (cps '' '') (map (\<lambda>t. cps ''\"'' @ t @ cps ''\"*'') (t # ts)) \<noteq> []"
      by (simp add: joinWith_nonempty cps_def)
    with False Cons show ?thesis by (simp add: buildFtsQueryVariants_def Let_def)
  qed
qed

theorem buildFtsQueryVariants_primary_nonempty_witness:
  "primary (buildFtsQueryVariants (cps ''code penal'')) \<noteq> []"
  using buildFtsQueryVariants_primary_nonempty[of "cps ''code penal''"]
  by (simp add: trim_def cps_def isWhitespace_def)

text \<open>A string of one space is not empty, and its primary variant is.\<close>

theorem buildFtsQueryVariants_primary_counterexample:
  "cps '' '' \<noteq> [] \<and> primary (buildFtsQueryVariants (cps '' '')) = []"
  by (simp add: fts_eval isWhitespace_def)

end
